theory Spec2Isabelle
  imports Main "HOL-Library.Sublist" "HOL-Library.List_Lexorder" "HOL-Library.Char_ord"
begin

unbundle bit_operations_syntax

section \<open>The file system the library runs on\<close>

text \<open>
  The package \<^verbatim>\<open>fileutils\<close> is a thin layer over the Go standard library
  (\<^verbatim>\<open>os\<close>, \<^verbatim>\<open>io\<close>, \<^verbatim>\<open>io/ioutil\<close>, \<^verbatim>\<open>path/filepath\<close>). Its functions are
  embedded below exactly as they are written; the standard library and the kernel
  underneath it are represented by an explicit model of a POSIX file tree:

  \<^item> a tree of regular files, directories and symbolic links, each with permission
    bits, owner, group and time stamps (devices, pipes, sockets and hard links are
    left out);
  \<^item> path strings are resolved component by component, following symbolic links
    (at most 40 of them), with \<^verbatim>\<open>.\<close> and \<^verbatim>\<open>..\<close>, relative to the root directory
    (the working directory is the root); a path of \<^verbatim>\<open>PATH_MAX\<close> bytes or more is
    refused with \<^verbatim>\<open>ENAMETOOLONG\<close>;
  \<^item> the process may search, read and write everything (no permission checks of its
    own); instead every system call can fail for a reason outside the tree
    (\<^verbatim>\<open>EACCES\<close>, \<^verbatim>\<open>EIO\<close>, ...): the \<open>faults\<close> of a world say which call, counted
    from the start, fails and how, so a theorem about all worlds is a theorem about
    all such failures;
  \<^item> the world records the system calls made (\<open>trace\<close>) and the open file
    descriptors (\<open>handles\<close>).
\<close>

subsection \<open>Errors\<close>

datatype ioerr = EACCES | EPERM | EIO | ENOSPC | EROFS

datatype errno =
    ENOENT | EEXIST | ENOTDIR | EISDIR | ELOOP | ENAMETOOLONG | EINVAL | EBADF
  | Env ioerr

text \<open>
  A Go \<^verbatim>\<open>error\<close> value: an error of a system call (\<^verbatim>\<open>*os.PathError\<close> and friends), a
  string error made by \<^verbatim>\<open>errors.New\<close>, or one of the two sentinels of
  \<^verbatim>\<open>path/filepath\<close>. The value \<^verbatim>\<open>nil\<close> is \<open>None\<close> of \<open>error option\<close>.
\<close>

datatype error = Errno errno | ErrorString string | SkipDir | SkipAll

fun IsNotExist :: "error option \<Rightarrow> bool" where
  "IsNotExist (Some (Errno ENOENT)) = True"
| "IsNotExist _ = False"

subsection \<open>Nodes and file information\<close>

record attrs =
  perm :: nat
  uid :: int
  gid :: int
  mtime :: int
  atime :: int

datatype node =
    File attrs string
  | Dir attrs "(string \<times> node) list"
  | Symlink attrs string

datatype kind = KFile | KDir | KLink string

fun kind_of :: "node \<Rightarrow> kind" where
  "kind_of (File a c) = KFile"
| "kind_of (Dir a es) = KDir"
| "kind_of (Symlink a t) = KLink t"

fun attrs_of :: "node \<Rightarrow> attrs" where
  "attrs_of (File a c) = a"
| "attrs_of (Dir a es) = a"
| "attrs_of (Symlink a t) = a"

fun upd_attrs :: "(attrs \<Rightarrow> attrs) \<Rightarrow> node \<Rightarrow> node" where
  "upd_attrs f (File a c) = File (f a) c"
| "upd_attrs f (Dir a es) = Dir (f a) es"
| "upd_attrs f (Symlink a t) = Symlink (f a) t"

text \<open>\<^verbatim>\<open>os.FileMode\<close>: the type bits and the permission bits; \<^verbatim>\<open>os.FileInfo\<close>.\<close>

datatype ftype = TRegular | TDir | TSymlink

record FileMode =
  ftype :: ftype
  Perm :: nat

definition IsDir :: "FileMode \<Rightarrow> bool" where
  "IsDir m = (ftype m = TDir)"

definition IsRegular :: "FileMode \<Rightarrow> bool" where
  "IsRegular m = (ftype m = TRegular)"

record FileInfo =
  Name :: string
  Mode :: FileMode
  ModTime :: int

fun ftype_of :: "node \<Rightarrow> ftype" where
  "ftype_of (File a c) = TRegular"
| "ftype_of (Dir a es) = TDir"
| "ftype_of (Symlink a t) = TSymlink"

definition info_of :: "string \<Rightarrow> node \<Rightarrow> FileInfo" where
  "info_of nm n =
     \<lparr>Name = nm, Mode = \<lparr>ftype = ftype_of n, Perm = perm (attrs_of n)\<rparr>,
      ModTime = mtime (attrs_of n)\<rparr>"

subsection \<open>The tree: lookup and update at a physical path\<close>

text \<open>
  A physical path is the list of entry names from the root to a node; no symbolic
  link is followed along it.
\<close>

fun get_node :: "node \<Rightarrow> string list \<Rightarrow> node option" where
  "get_node n [] = Some n"
| "get_node (Dir a es) (c # cs) =
     (case map_of es c of None \<Rightarrow> None | Some ch \<Rightarrow> get_node ch cs)"
| "get_node (File a d) (c # cs) = None"
| "get_node (Symlink a t) (c # cs) = None"

fun map_at :: "string list \<Rightarrow> (node \<Rightarrow> node) \<Rightarrow> node \<Rightarrow> node" where
  "map_at [] f n = f n"
| "map_at (c # cs) f (Dir a es) =
     Dir a (map (\<lambda>e. if fst e = c then (fst e, map_at cs f (snd e)) else e) es)"
| "map_at (c # cs) f (File a d) = File a d"
| "map_at (c # cs) f (Symlink a t) = Symlink a t"

fun add_entry :: "string \<Rightarrow> node \<Rightarrow> node \<Rightarrow> node" where
  "add_entry nm new (Dir a es) = Dir a (es @ [(nm, new)])"
| "add_entry nm new n = n"

definition kind_at :: "node \<Rightarrow> string list \<Rightarrow> kind option" where
  "kind_at t p = map_option kind_of (get_node t p)"

subsection \<open>Path strings\<close>

definition PATH_MAX :: nat where
  "PATH_MAX = 4096"

fun comps :: "string \<Rightarrow> string \<Rightarrow> string list" where
  "comps acc [] = (if acc = [] then [] else [acc])"
| "comps acc (c # cs) =
     (if c = CHR ''/'' then (if acc = [] then comps [] cs else acc # comps [] cs)
      else comps (acc @ [c]) cs)"

definition split_path :: "string \<Rightarrow> string list" where
  "split_path p = comps [] p"

definition basename :: "string \<Rightarrow> string" where
  "basename p = (case split_path p of [] \<Rightarrow> ''/'' | cs \<Rightarrow> last cs)"

text \<open>
  The names a directory entry can have: not empty, without a separator, and not one
  of the two names \<^verbatim>\<open>.\<close> and \<^verbatim>\<open>..\<close>, which no directory listing returns.
\<close>

definition valid_name :: "string \<Rightarrow> bool" where
  "valid_name nm \<longleftrightarrow> nm \<noteq> [] \<and> CHR ''/'' \<notin> set nm \<and> nm \<noteq> ''.'' \<and> nm \<noteq> ''..''"

text \<open>
  Name lookup. \<open>k\<close> says what kind of node, if any, stands at a physical path; \<open>fl\<close>
  says whether a symbolic link in the last component is followed; \<open>b\<close> is the number
  of links that may still be followed; \<open>cur\<close> is the directory reached so far. The
  result is the physical path the string names. Its last component may be missing
  (the caller decides whether that is \<^verbatim>\<open>ENOENT\<close> or a file to create); everything
  before it exists.
\<close>

fun namei ::
  "(string list \<Rightarrow> kind option) \<Rightarrow> bool \<Rightarrow> nat \<Rightarrow> string list \<Rightarrow> string list
     \<Rightarrow> errno + string list" where
  "namei k fl b cur [] = Inr cur"
| "namei k fl b cur (c # cs) =
     (case k cur of
        None \<Rightarrow> Inl ENOENT
      | Some KFile \<Rightarrow> Inl ENOTDIR
      | Some (KLink t) \<Rightarrow> Inl ENOTDIR
      | Some KDir \<Rightarrow>
          if c = ''.'' then namei k fl b cur cs
          else if c = ''..'' then namei k fl b (butlast cur) cs
          else (case k (cur @ [c]) of
                  None \<Rightarrow> if cs = [] then Inr (cur @ [c]) else Inl ENOENT
                | Some (KLink t) \<Rightarrow>
                    if cs = [] \<and> \<not> fl then Inr (cur @ [c])
                    else if t = [] then Inl ENOENT
                    else (case b of
                            0 \<Rightarrow> Inl ELOOP
                          | Suc b' \<Rightarrow>
                              namei k fl b' (if hd t = CHR ''/'' then [] else cur)
                                (split_path t @ cs))
                | Some KFile \<Rightarrow> namei k fl b (cur @ [c]) cs
                | Some KDir \<Rightarrow> namei k fl b (cur @ [c]) cs))"

text \<open>
  A path that ends in a separator (and is not the root) can only name a directory,
  and a symbolic link in its last component is followed: it is looked up as if a
  component \<^verbatim>\<open>.\<close> came after the separator.
\<close>

definition dir_only :: "string \<Rightarrow> bool" where
  "dir_only p \<longleftrightarrow> p \<noteq> [] \<and> last p = CHR ''/'' \<and> split_path p \<noteq> []"

definition lookup_comps :: "string \<Rightarrow> string list" where
  "lookup_comps p = split_path p @ (if dir_only p then [''.''] else [])"

definition resolve :: "node \<Rightarrow> bool \<Rightarrow> string \<Rightarrow> errno + string list" where
  "resolve t fl p =
     (if p = [] then Inl ENOENT
      else if PATH_MAX \<le> length p then Inl ENAMETOOLONG
      else namei (kind_at t) fl 40 [] (lookup_comps p))"

subsection \<open>Operations on the tree\<close>

text \<open>
  The effect of each system call on the tree alone, as a pure function: the error
  number, or the result and the new tree.
\<close>

definition fs_stat :: "bool \<Rightarrow> node \<Rightarrow> string \<Rightarrow> errno + FileInfo" where
  "fs_stat fl t p =
     (case resolve t fl p of
        Inl e \<Rightarrow> Inl e
      | Inr P \<Rightarrow> (case get_node t P of
                    None \<Rightarrow> Inl ENOENT
                  | Some n \<Rightarrow> Inr (info_of (basename p) n)))"

definition fs_open :: "node \<Rightarrow> string \<Rightarrow> errno + string list" where
  "fs_open t p =
     (case resolve t True p of
        Inl e \<Rightarrow> Inl e
      | Inr P \<Rightarrow> (case get_node t P of None \<Rightarrow> Inl ENOENT | Some n \<Rightarrow> Inr P))"

text \<open>
  \<^verbatim>\<open>open(O_RDWR|O_CREAT|O_TRUNC, 0666)\<close>: an existing regular file is emptied, a
  missing one is created in its (existing) directory with the attributes \<open>a\<close>. A
  path that ends in a separator is refused with \<^verbatim>\<open>EISDIR\<close>.
\<close>

definition fs_create :: "attrs \<Rightarrow> node \<Rightarrow> string \<Rightarrow> errno + string list \<times> node" where
  "fs_create a t p =
     (if dir_only p \<and> length p < PATH_MAX then
        (case namei (kind_at t) True 40 [] (split_path p) of
           Inl e \<Rightarrow> Inl e
         | Inr P \<Rightarrow> Inl EISDIR)
      else
        (case resolve t True p of
           Inl e \<Rightarrow> Inl e
         | Inr P \<Rightarrow>
             (case get_node t P of
                Some (File b c) \<Rightarrow> Inr (P, map_at P (\<lambda>n. File (b\<lparr>mtime := mtime a\<rparr>) []) t)
              | Some (Dir b es) \<Rightarrow> Inl EISDIR
              | Some (Symlink b l) \<Rightarrow> Inl ELOOP
              | None \<Rightarrow>
                  if P = [] then Inl ENOENT
                  else Inr (P, map_at (butlast P) (add_entry (last P) (File a [])) t))))"

fun write_file :: "int \<Rightarrow> string \<Rightarrow> node \<Rightarrow> node" where
  "write_file tm d (File a c) = File (a\<lparr>mtime := tm\<rparr>) (d @ drop (length d) c)"
| "write_file tm d n = n"

definition fs_update ::
  "(attrs \<Rightarrow> attrs) \<Rightarrow> node \<Rightarrow> string \<Rightarrow> errno + node" where
  "fs_update f t p =
     (case resolve t True p of
        Inl e \<Rightarrow> Inl e
      | Inr P \<Rightarrow> (case get_node t P of
                    None \<Rightarrow> Inl ENOENT
                  | Some n \<Rightarrow> Inr (map_at P (upd_attrs f) t)))"

text \<open>
  \<^verbatim>\<open>os.MkdirAll\<close>: every missing directory along the path is made, with the
  attributes \<open>a\<close>; a failure keeps the directories made before it.
\<close>

fun mkdirs :: "attrs \<Rightarrow> string list \<Rightarrow> string list \<Rightarrow> node \<Rightarrow> errno option \<times> node" where
  "mkdirs a cur [] t = (None, t)"
| "mkdirs a cur (c # cs) t =
     (case kind_at t cur of
        None \<Rightarrow> (Some ENOENT, t)
      | Some KFile \<Rightarrow> (Some ENOTDIR, t)
      | Some (KLink l) \<Rightarrow> (Some ENOTDIR, t)
      | Some KDir \<Rightarrow>
          if c = ''.'' then mkdirs a cur cs t
          else if c = ''..'' then mkdirs a (butlast cur) cs t
          else (case kind_at t (cur @ [c]) of
                  None \<Rightarrow> mkdirs a (cur @ [c]) cs (map_at cur (add_entry c (Dir a [])) t)
                | Some KDir \<Rightarrow> mkdirs a (cur @ [c]) cs t
                | Some KFile \<Rightarrow> (Some ENOTDIR, t)
                | Some (KLink l) \<Rightarrow>
                    (case namei (kind_at t) True 40 cur [c] of
                       Inl e \<Rightarrow> (Some e, t)
                     | Inr P \<Rightarrow>
                         (case kind_at t P of
                            Some KDir \<Rightarrow> mkdirs a P cs t
                          | Some KFile \<Rightarrow> (Some ENOTDIR, t)
                          | Some (KLink l') \<Rightarrow> (Some ELOOP, t)
                          | None \<Rightarrow> (Some EEXIST, t)))))"

definition fs_mkdir_all :: "attrs \<Rightarrow> node \<Rightarrow> string \<Rightarrow> errno option \<times> node" where
  "fs_mkdir_all a t p =
     (if p = [] then (Some ENOENT, t)
      else if PATH_MAX \<le> length p then (Some ENAMETOOLONG, t)
      else mkdirs a [] (split_path p) t)"

definition fs_readdir :: "node \<Rightarrow> string \<Rightarrow> errno + (string \<times> node) list" where
  "fs_readdir t p =
     (case resolve t True p of
        Inl e \<Rightarrow> Inl e
      | Inr P \<Rightarrow> (case get_node t P of
                    None \<Rightarrow> Inl ENOENT
                  | Some (Dir a es) \<Rightarrow> Inr (filter (\<lambda>e. valid_name (fst e)) (sort_key fst es))
                  | Some (File a c) \<Rightarrow> Inl ENOTDIR
                  | Some (Symlink a l) \<Rightarrow> Inl ENOTDIR))"

definition fs_readlink :: "node \<Rightarrow> string \<Rightarrow> errno + string" where
  "fs_readlink t p =
     (case resolve t False p of
        Inl e \<Rightarrow> Inl e
      | Inr P \<Rightarrow> (case get_node t P of
                    None \<Rightarrow> Inl ENOENT
                  | Some (Symlink a l) \<Rightarrow> Inr l
                  | Some (File a c) \<Rightarrow> Inl EINVAL
                  | Some (Dir a es) \<Rightarrow> Inl EINVAL))"

text \<open>
  \<^verbatim>\<open>symlink(l, p)\<close>: a new link at the missing path \<open>p\<close>. Behind a path that ends
  in a separator nothing is made: the call fails with \<^verbatim>\<open>EEXIST\<close> when the name is
  there and with \<^verbatim>\<open>ENOENT\<close> when it is not.
\<close>

definition fs_symlink :: "attrs \<Rightarrow> string \<Rightarrow> node \<Rightarrow> string \<Rightarrow> errno + node" where
  "fs_symlink a l t p =
     (if l = [] then Inl ENOENT
      else if dir_only p \<and> length p < PATH_MAX then
        (case namei (kind_at t) False 40 [] (split_path p) of
           Inl e \<Rightarrow> Inl e
         | Inr P \<Rightarrow> (case get_node t P of Some n \<Rightarrow> Inl EEXIST | None \<Rightarrow> Inl ENOENT))
      else case resolve t False p of
        Inl e \<Rightarrow> Inl e
      | Inr P \<Rightarrow> (case get_node t P of
                    Some n \<Rightarrow> Inl EEXIST
                  | None \<Rightarrow>
                      if P = [] then Inl ENOENT
                      else Inr (map_at (butlast P) (add_entry (last P) (Symlink a l)) t)))"

subsection \<open>The world and the system calls\<close>

datatype syscall =
    SysStat string | SysLstat string | SysOpen string | SysCreate string
  | SysClose nat | SysCopy nat nat | SysFchmod nat nat | SysFsync nat
  | SysChmod string nat | SysChown string int int | SysChtimes string int int
  | SysMkdirAll string nat | SysReadDir string | SysReadlink string
  | SysSymlink string string

record world =
  root :: node
  handles :: "(nat \<times> string list) list"
  next_fd :: nat
  trace :: "(syscall \<times> error option) list"
  faults :: "nat \<Rightarrow> (ioerr \<times> nat) option"
  umask :: nat
  now :: int
  euid :: int
  egid :: int

text \<open>
  The trace holds every system call made, in order, with the error it returned
  (\<open>None\<close> for success); \<open>calls\<close> are the calls alone. The fault of a call is
  looked up under its number in the trace.
\<close>

definition calls :: "world \<Rightarrow> syscall list" where
  "calls s = map fst (trace s)"

definition fault_at :: "world \<Rightarrow> (ioerr \<times> nat) option" where
  "fault_at s = faults s (length (trace s))"

definition log :: "syscall \<Rightarrow> error option \<Rightarrow> world \<Rightarrow> world" where
  "log c r s = s\<lparr>trace := trace s @ [(c, r)]\<rparr>"

fun err_of :: "error + 'a \<Rightarrow> error option" where
  "err_of (Inl e) = Some e"
| "err_of (Inr v) = None"

definition new_attrs :: "world \<Rightarrow> nat \<Rightarrow> attrs" where
  "new_attrs s m =
     \<lparr>perm = m - (m AND umask s), uid = euid s, gid = egid s, mtime = now s, atime = now s\<rparr>"

text \<open>A call that only reads the tree, and a call that changes it.\<close>

definition query :: "syscall \<Rightarrow> (node \<Rightarrow> errno + 'a) \<Rightarrow> world \<Rightarrow> (error + 'a) \<times> world" where
  "query c f s =
     (case fault_at s of
        Some (e, k) \<Rightarrow> (Inl (Errno (Env e)), log c (Some (Errno (Env e))) s)
      | None \<Rightarrow> (case f (root s) of
                   Inl e \<Rightarrow> (Inl (Errno e), log c (Some (Errno e)) s)
                 | Inr v \<Rightarrow> (Inr v, log c None s)))"

definition command :: "syscall \<Rightarrow> (node \<Rightarrow> errno + node) \<Rightarrow> world \<Rightarrow> error option \<times> world" where
  "command c f s =
     (case fault_at s of
        Some (e, k) \<Rightarrow> (Some (Errno (Env e)), log c (Some (Errno (Env e))) s)
      | None \<Rightarrow> (case f (root s) of
                   Inl e \<Rightarrow> (Some (Errno e), log c (Some (Errno e)) s)
                 | Inr t \<Rightarrow> (None, (log c None s)\<lparr>root := t\<rparr>)))"

definition os_Stat :: "string \<Rightarrow> world \<Rightarrow> (error + FileInfo) \<times> world" where
  "os_Stat p = query (SysStat p) (\<lambda>t. fs_stat True t p)"

definition os_Lstat :: "string \<Rightarrow> world \<Rightarrow> (error + FileInfo) \<times> world" where
  "os_Lstat p = query (SysLstat p) (\<lambda>t. fs_stat False t p)"

definition os_Readlink :: "string \<Rightarrow> world \<Rightarrow> (error + string) \<times> world" where
  "os_Readlink p = query (SysReadlink p) (\<lambda>t. fs_readlink t p)"

text \<open>\<^verbatim>\<open>ioutil.ReadDir\<close>: the entries of a directory, sorted by name.\<close>

definition ioutil_ReadDir :: "string \<Rightarrow> world \<Rightarrow> (error + FileInfo list) \<times> world" where
  "ioutil_ReadDir p =
     query (SysReadDir p)
       (\<lambda>t. case fs_readdir t p of
              Inl e \<Rightarrow> Inl e
            | Inr es \<Rightarrow> Inr (map (\<lambda>e. info_of (fst e) (snd e)) es))"

text \<open>The unexported \<^verbatim>\<open>readDirNames\<close> of \<^verbatim>\<open>path/filepath\<close>: the sorted entry names.\<close>

definition readDirNames :: "string \<Rightarrow> world \<Rightarrow> (error + string list) \<times> world" where
  "readDirNames p =
     query (SysReadDir p)
       (\<lambda>t. case fs_readdir t p of Inl e \<Rightarrow> Inl e | Inr es \<Rightarrow> Inr (map fst es))"

definition os_Chmod :: "string \<Rightarrow> FileMode \<Rightarrow> world \<Rightarrow> error option \<times> world" where
  "os_Chmod p m =
     command (SysChmod p (Perm m)) (\<lambda>t. fs_update (\<lambda>a. a\<lparr>perm := Perm m\<rparr>) t p)"

text \<open>
  \<^verbatim>\<open>os.Chown\<close>: the system call takes the low 32 bits of each id, and the id
  \<open>2\<^sup>3\<^sup>2 - 1\<close> (which is \<open>-1\<close>) leaves that id as it is.
\<close>

definition chown_id :: "int \<Rightarrow> int \<Rightarrow> int" where
  "chown_id v old = (if v mod 2 ^ 32 = 2 ^ 32 - 1 then old else v mod 2 ^ 32)"

definition os_Chown :: "string \<Rightarrow> int \<Rightarrow> int \<Rightarrow> world \<Rightarrow> error option \<times> world" where
  "os_Chown p u g =
     command (SysChown p u g)
       (\<lambda>t. fs_update (\<lambda>a. a\<lparr>uid := chown_id u (uid a), gid := chown_id g (gid a)\<rparr>) t p)"

definition os_Chtimes :: "string \<Rightarrow> int \<Rightarrow> int \<Rightarrow> world \<Rightarrow> error option \<times> world" where
  "os_Chtimes p at mt =
     command (SysChtimes p at mt) (\<lambda>t. fs_update (\<lambda>a. a\<lparr>atime := at, mtime := mt\<rparr>) t p)"

text \<open>A new symbolic link has all permission bits, whatever the umask is.\<close>

definition link_attrs :: "world \<Rightarrow> attrs" where
  "link_attrs s = \<lparr>perm = 511, uid = euid s, gid = egid s, mtime = now s, atime = now s\<rparr>"

definition os_Symlink :: "string \<Rightarrow> string \<Rightarrow> world \<Rightarrow> error option \<times> world" where
  "os_Symlink l p s = command (SysSymlink l p) (\<lambda>t. fs_symlink (link_attrs s) l t p) s"

text \<open>
  \<^verbatim>\<open>os.MkdirAll\<close> keeps the directories it made when it fails part way, so it is not
  a \<open>command\<close>.
\<close>

definition os_MkdirAll :: "string \<Rightarrow> FileMode \<Rightarrow> world \<Rightarrow> error option \<times> world" where
  "os_MkdirAll p m s =
     (case fault_at s of
        Some (e, k) \<Rightarrow>
          (Some (Errno (Env e)), log (SysMkdirAll p (Perm m)) (Some (Errno (Env e))) s)
      | None \<Rightarrow>
          (case fs_mkdir_all (new_attrs s (Perm m)) (root s) p of
             (r, t) \<Rightarrow>
               (map_option Errno r,
                (log (SysMkdirAll p (Perm m)) (map_option Errno r) s)\<lparr>root := t\<rparr>)))"

text \<open>
  File descriptors. \<^verbatim>\<open>os.Open\<close> and \<^verbatim>\<open>os.Create\<close> return a new descriptor for the
  node at a physical path; it stays in \<open>handles\<close> until \<^verbatim>\<open>Close\<close> is called on it.
\<close>

definition os_Open :: "string \<Rightarrow> world \<Rightarrow> (error + nat) \<times> world" where
  "os_Open p s =
     (case fault_at s of
        Some (e, k) \<Rightarrow> (Inl (Errno (Env e)), log (SysOpen p) (Some (Errno (Env e))) s)
      | None \<Rightarrow>
          (case fs_open (root s) p of
             Inl e \<Rightarrow> (Inl (Errno e), log (SysOpen p) (Some (Errno e)) s)
           | Inr P \<Rightarrow>
               (Inr (next_fd s),
                (log (SysOpen p) None s)\<lparr>handles := (next_fd s, P) # handles s,
                                           next_fd := Suc (next_fd s)\<rparr>)))"

definition os_Create :: "string \<Rightarrow> world \<Rightarrow> (error + nat) \<times> world" where
  "os_Create p s =
     (case fault_at s of
        Some (e, k) \<Rightarrow> (Inl (Errno (Env e)), log (SysCreate p) (Some (Errno (Env e))) s)
      | None \<Rightarrow>
          (case fs_create (new_attrs s 438) (root s) p of
             Inl e \<Rightarrow> (Inl (Errno e), log (SysCreate p) (Some (Errno e)) s)
           | Inr (P, t) \<Rightarrow>
               (Inr (next_fd s),
                (log (SysCreate p) None s)\<lparr>root := t, handles := (next_fd s, P) # handles s,
                                             next_fd := Suc (next_fd s)\<rparr>)))"

text \<open>
  \<^verbatim>\<open>Close\<close> releases the descriptor even when it reports an error.
\<close>

definition file_Close :: "nat \<Rightarrow> world \<Rightarrow> error option \<times> world" where
  "file_Close fd s =
     (case map_of (handles s) fd of
        None \<Rightarrow> (Some (Errno EBADF), log (SysClose fd) (Some (Errno EBADF)) s)
      | Some P \<Rightarrow>
          (case fault_at s of
             Some (e, k) \<Rightarrow>
               (Some (Errno (Env e)),
                (log (SysClose fd) (Some (Errno (Env e))) s)
                  \<lparr>handles := filter (\<lambda>h. fst h \<noteq> fd) (handles s)\<rparr>)
           | None \<Rightarrow>
               (None,
                (log (SysClose fd) None s)
                  \<lparr>handles := filter (\<lambda>h. fst h \<noteq> fd) (handles s)\<rparr>)))"

definition file_Chmod :: "nat \<Rightarrow> FileMode \<Rightarrow> world \<Rightarrow> error option \<times> world" where
  "file_Chmod fd m s =
     (case map_of (handles s) fd of
        None \<Rightarrow> (Some (Errno EBADF), log (SysFchmod fd (Perm m)) (Some (Errno EBADF)) s)
      | Some P \<Rightarrow>
          command (SysFchmod fd (Perm m))
            (\<lambda>t. Inr (map_at P (upd_attrs (\<lambda>a. a\<lparr>perm := Perm m\<rparr>)) t)) s)"

definition file_Sync :: "nat \<Rightarrow> world \<Rightarrow> error option \<times> world" where
  "file_Sync fd s =
     (case map_of (handles s) fd of
        None \<Rightarrow> (Some (Errno EBADF), log (SysFsync fd) (Some (Errno EBADF)) s)
      | Some P \<Rightarrow> command (SysFsync fd) (\<lambda>t. Inr t) s)"

text \<open>
  \<^verbatim>\<open>io.Copy(dst, src)\<close> on two fresh descriptors (both at offset 0): all bytes of the
  source file are written over the start of the destination file. A failing copy
  has written the first \<open>k\<close> bytes, \<open>k\<close> given by the fault. The result is the number
  of bytes written and the error.
\<close>

definition io_Copy :: "nat \<Rightarrow> nat \<Rightarrow> world \<Rightarrow> (error + nat) \<times> world" where
  "io_Copy dst src s =
     (case (map_of (handles s) dst, map_of (handles s) src) of
        (Some Po, Some Pi) \<Rightarrow>
          (case (get_node (root s) Po, get_node (root s) Pi) of
             (Some (File ao old), Some (File ai d)) \<Rightarrow>
               (case fault_at s of
                  Some (e, k) \<Rightarrow>
                    (Inl (Errno (Env e)),
                     (log (SysCopy dst src) (Some (Errno (Env e))) s)
                       \<lparr>root := map_at Po (write_file (now s) (take k d)) (root s)\<rparr>)
                | None \<Rightarrow>
                    (Inr (length d),
                     (log (SysCopy dst src) None s)
                       \<lparr>root := map_at Po (write_file (now s) d) (root s)\<rparr>))
           | _ \<Rightarrow> (Inl (Errno EISDIR), log (SysCopy dst src) (Some (Errno EISDIR)) s))
      | _ \<Rightarrow> (Inl (Errno EBADF), log (SysCopy dst src) (Some (Errno EBADF)) s))"

section \<open>The package fileutils\<close>

record CpArgs =
  Recursive :: bool
  PreserveLinks :: bool
  PreserveTimestamps :: bool

text \<open>The zero value \<^verbatim>\<open>CpArgs{}\<close>.\<close>

definition CpArgs_zero :: CpArgs where
  "CpArgs_zero = \<lparr>Recursive = False, PreserveLinks = False, PreserveTimestamps = False\<rparr>"

definition cpSymlink :: "string \<Rightarrow> string \<Rightarrow> world \<Rightarrow> error option \<times> world" where
  "cpSymlink src dest s =
     (case os_Readlink src s of
        (Inl err, s1) \<Rightarrow> (Some err, s1)
      | (Inr linkTarget, s1) \<Rightarrow> os_Symlink linkTarget dest s1)"

text \<open>
  The two deferred calls of the file case of \<^verbatim>\<open>CpWithArgs\<close>, run in reverse order
  of their \<^verbatim>\<open>defer\<close> statements when the function returns: first the closure that
  closes \<^verbatim>\<open>out\<close>, then \<^verbatim>\<open>in.Close()\<close>. The closure stores the error of
  \<^verbatim>\<open>out.Close()\<close> in the variable \<^verbatim>\<open>err\<close> that is in scope where the closure is
  written. That is the \<^verbatim>\<open>err\<close> declared by \<^verbatim>\<open>si, err := os.Lstat(source)\<close> in the
  \<^verbatim>\<open>else\<close> block, not the named result of the function, so the value returned is
  not changed.
\<close>

definition run_defers :: "nat \<Rightarrow> nat \<Rightarrow> error option \<times> world \<Rightarrow> error option \<times> world" where
  "run_defers out inp r =
     (case file_Close out (snd r) of
        (cerr, s') \<Rightarrow> (case file_Close inp s' of (ierr, s'') \<Rightarrow> (fst r, s'')))"

text \<open>
  The \<^verbatim>\<open>else\<close> block of \<^verbatim>\<open>CpWithArgs\<close> (the source is not a directory), with the
  final bare \<^verbatim>\<open>return\<close> of the function. \<open>cpContents\<close> is the part after the two
  \<^verbatim>\<open>defer\<close> statements. The block's \<^verbatim>\<open>err\<close> shadows the named result: every
  \<^verbatim>\<open>return err\<close> inside the block returns the block's variable, but
  \<^verbatim>\<open>err = out.Sync()\<close> assigns the block's variable and the bare \<^verbatim>\<open>return\<close> after
  the block returns the named result, which still holds the \<^verbatim>\<open>nil\<close> of \<^verbatim>\<open>os.Stat\<close>.
\<close>

definition cpContents ::
  "nat \<Rightarrow> nat \<Rightarrow> FileInfo \<Rightarrow> string \<Rightarrow> CpArgs \<Rightarrow> world \<Rightarrow> error option \<times> world" where
  "cpContents out inp si dest args s3 =
     (case io_Copy out inp s3 of
        (Inl err, s4) \<Rightarrow> (Some err, s4)
      | (Inr n, s4) \<Rightarrow>
          (case file_Chmod out (Mode si) s4 of
             (Some err, s5) \<Rightarrow> (Some err, s5)
           | (None, s5) \<Rightarrow>
               (case (if PreserveTimestamps args
                      then os_Chtimes dest (ModTime si) (ModTime si) s5
                      else (None, s5)) of
                  (Some err, s6) \<Rightarrow> (Some err, s6)
                | (None, s6) \<Rightarrow>
                    (case file_Sync out s6 of
                       (serr, s7) \<Rightarrow> (None, s7)))))"

definition cpFileCase :: "string \<Rightarrow> string \<Rightarrow> CpArgs \<Rightarrow> world \<Rightarrow> error option \<times> world" where
  "cpFileCase source dest args s =
     (case os_Lstat source s of
        (Inl err, s1) \<Rightarrow> (Some err, s1)
      | (Inr si, s1) \<Rightarrow>
          if PreserveLinks args \<and> \<not> IsRegular (Mode si) then cpSymlink source dest s1
          else
            (case os_Open source s1 of
               (Inl err, s2) \<Rightarrow> (Some err, s2)
             | (Inr inp, s2) \<Rightarrow>
                 (case os_Create dest s2 of
                    (Inl err, s3) \<Rightarrow> (Some err, snd (file_Close inp s3))
                  | (Inr out, s3) \<Rightarrow>
                      run_defers out inp (cpContents out inp si dest args s3))))"

text \<open>
  \<^verbatim>\<open>CpWithArgs\<close>, with the loop over the directory entries as \<open>cpFiles\<close>. The result
  of \<^verbatim>\<open>os.Open(dest)\<close> in the directory case is thrown away (the blank identifier): the
  descriptor, when there is one, is never closed.
\<close>

lemma os_Stat_length:
  "os_Stat p s = (Inr i, s') \<Longrightarrow> length p < PATH_MAX"
  by (auto simp: os_Stat_def query_def fs_stat_def resolve_def
      split: option.splits sum.splits prod.splits if_splits)

function CpWithArgs :: "string \<Rightarrow> string \<Rightarrow> CpArgs \<Rightarrow> world \<Rightarrow> error option \<times> world"
  and cpFiles :: "string \<Rightarrow> string \<Rightarrow> CpArgs \<Rightarrow> FileInfo list \<Rightarrow> world \<Rightarrow> error option \<times> world"
where
  "CpWithArgs source dest args s =
     (case os_Stat source s of
        (Inl err, s1) \<Rightarrow> (Some err, s1)
      | (Inr sourceInfo, s1) \<Rightarrow>
          if IsDir (Mode sourceInfo) then
            if \<not> Recursive args then (Some (ErrorString ''source is a directory''), s1)
            else
              (case os_Open dest s1 of
                 (r, s2) \<Rightarrow>
                   if \<not> IsNotExist (err_of r)
                   then (Some (ErrorString ''destination already exists''), s2)
                   else
                     (case os_MkdirAll dest (Mode sourceInfo) s2 of
                        (Some err, s3) \<Rightarrow> (Some err, s3)
                      | (None, s3) \<Rightarrow>
                          (case ioutil_ReadDir source s3 of
                             (Inl err, s4) \<Rightarrow> (Some err, s4)
                           | (Inr files, s4) \<Rightarrow> cpFiles source dest args files s4)))
          else cpFileCase source dest args s1)"
| "cpFiles source dest args [] s = (None, s)"
| "cpFiles source dest args (file # files) s =
     (case CpWithArgs (source @ ''/'' @ Name file) (dest @ ''/'' @ Name file) args s of
        (Some err, s') \<Rightarrow> (Some err, s')
      | (None, s') \<Rightarrow> cpFiles source dest args files s')"
  by pat_completeness auto
termination
proof (relation "measures
    [\<lambda>x. case x of
            Inl (source, dest, args, s) \<Rightarrow>
              (if PATH_MAX \<le> length source then 0 else 2 * (PATH_MAX - length source))
          | Inr (source, dest, args, files, s) \<Rightarrow>
              (if PATH_MAX \<le> length source then 1 else 2 * (PATH_MAX - length source) - 1),
     \<lambda>x. case x of
            Inl (source, dest, args, s) \<Rightarrow> 0
          | Inr (source, dest, args, files, s) \<Rightarrow> length files]", goal_cases)
  case 1
  show ?case by simp
next
  case 2
  then show ?case by (auto dest: os_Stat_length os_Stat_length[OF sym])
next
  case 3
  then show ?case by (simp add: PATH_MAX_def; arith)
next
  case 4
  then show ?case by simp
qed

declare CpWithArgs.simps [simp del]

definition Cp :: "string \<Rightarrow> string \<Rightarrow> world \<Rightarrow> error option \<times> world" where
  "Cp src dest = CpWithArgs src dest CpArgs_zero"

definition cpFollowLinks :: "string \<Rightarrow> string \<Rightarrow> world \<Rightarrow> error option \<times> world" where
  "cpFollowLinks src dest = CpWithArgs src dest CpArgs_zero"

definition cpPreserveLinks :: "string \<Rightarrow> string \<Rightarrow> world \<Rightarrow> error option \<times> world" where
  "cpPreserveLinks src dest = CpWithArgs src dest (CpArgs_zero\<lparr>PreserveLinks := True\<rparr>)"

definition CpR :: "string \<Rightarrow> string \<Rightarrow> world \<Rightarrow> error option \<times> world" where
  "CpR source dest = CpWithArgs source dest (CpArgs_zero\<lparr>Recursive := True\<rparr>)"

section \<open>Basic facts about the system calls\<close>

lemma log_simps:
  "root (log c r s) = root s" "handles (log c r s) = handles s"
  "next_fd (log c r s) = next_fd s" "trace (log c r s) = trace s @ [(c, r)]"
  "faults (log c r s) = faults s" "umask (log c r s) = umask s"
  "now (log c r s) = now s" "euid (log c r s) = euid s" "egid (log c r s) = egid s"
  by (simp_all add: log_def)

lemma query_trace: "trace (snd (query c f s)) = trace s @ [(c, err_of (fst (query c f s)))]"
  by (simp add: query_def log_simps split: option.splits sum.splits prod.splits)

lemma query_root: "root (snd (query c f s)) = root s"
  by (simp add: query_def log_simps split: option.splits sum.splits prod.splits)

lemma query_handles: "handles (snd (query c f s)) = handles s"
  by (simp add: query_def log_simps split: option.splits sum.splits prod.splits)

lemma query_snd: "snd (query c f s) = log c (err_of (fst (query c f s))) s"
  by (simp add: query_def split: option.splits sum.splits prod.splits)

lemma command_trace: "trace (snd (command c f s)) = trace s @ [(c, fst (command c f s))]"
  by (simp add: command_def log_simps split: option.splits sum.splits prod.splits)

lemma command_handles: "handles (snd (command c f s)) = handles s"
  by (simp add: command_def log_simps split: option.splits sum.splits prod.splits)

lemma os_Stat_snd: "snd (os_Stat p s) = log (SysStat p) (err_of (fst (os_Stat p s))) s"
  by (simp add: os_Stat_def query_snd)

lemma os_Stat_ok:
  "fault_at s = None \<Longrightarrow> fs_stat True (root s) p = Inr i \<Longrightarrow>
     os_Stat p s = (Inr i, log (SysStat p) None s)"
  by (simp add: os_Stat_def query_def)

lemma os_Open_not_IsNotExist:
  "fs_open (root s) p = Inr P \<Longrightarrow> \<not> IsNotExist (err_of (fst (os_Open p s)))"
  by (simp add: os_Open_def split: option.splits prod.splits)

lemma os_Open_root: "root (snd (os_Open p s)) = root s"
  by (simp add: os_Open_def log_simps split: option.splits prod.splits sum.splits)

lemma os_simple_trace:
  "trace (snd (os_Stat p s)) = trace s @ [(SysStat p, err_of (fst (os_Stat p s)))]"
  "trace (snd (os_Lstat p s)) = trace s @ [(SysLstat p, err_of (fst (os_Lstat p s)))]"
  "trace (snd (os_Readlink p s)) = trace s @ [(SysReadlink p, err_of (fst (os_Readlink p s)))]"
  "trace (snd (ioutil_ReadDir p s)) = trace s @ [(SysReadDir p, err_of (fst (ioutil_ReadDir p s)))]"
  "trace (snd (readDirNames p s)) = trace s @ [(SysReadDir p, err_of (fst (readDirNames p s)))]"
  "trace (snd (os_Chmod p m s)) = trace s @ [(SysChmod p (Perm m), fst (os_Chmod p m s))]"
  "trace (snd (os_Chown p u g s)) = trace s @ [(SysChown p u g, fst (os_Chown p u g s))]"
  "trace (snd (os_Chtimes p a b s)) = trace s @ [(SysChtimes p a b, fst (os_Chtimes p a b s))]"
  "trace (snd (os_Symlink l p s)) = trace s @ [(SysSymlink l p, fst (os_Symlink l p s))]"
  by (simp_all add: os_Stat_def os_Lstat_def os_Readlink_def ioutil_ReadDir_def readDirNames_def
      os_Chmod_def os_Chown_def os_Chtimes_def os_Symlink_def query_trace command_trace)

lemma os_handle_trace:
  "trace (snd (os_MkdirAll p m s)) = trace s @ [(SysMkdirAll p (Perm m), fst (os_MkdirAll p m s))]"
  "trace (snd (os_Open p s)) = trace s @ [(SysOpen p, err_of (fst (os_Open p s)))]"
  "trace (snd (os_Create p s)) = trace s @ [(SysCreate p, err_of (fst (os_Create p s)))]"
  "trace (snd (file_Close fd s)) = trace s @ [(SysClose fd, fst (file_Close fd s))]"
  "trace (snd (file_Chmod fd m s)) = trace s @ [(SysFchmod fd (Perm m), fst (file_Chmod fd m s))]"
  "trace (snd (file_Sync fd s)) = trace s @ [(SysFsync fd, fst (file_Sync fd s))]"
  "trace (snd (io_Copy dst src s)) = trace s @ [(SysCopy dst src, err_of (fst (io_Copy dst src s)))]"
  by (auto simp: os_MkdirAll_def os_Open_def os_Create_def file_Close_def file_Chmod_def
      file_Sync_def io_Copy_def command_trace log_simps
      split: option.splits prod.splits sum.splits node.splits)

lemmas trace_simps = os_simple_trace os_handle_trace

lemma traceD:
  "os_Stat p s = (r1, s1) \<Longrightarrow> trace s1 = trace s @ [(SysStat p, err_of r1)]"
  "os_Lstat p s = (r1, s1) \<Longrightarrow> trace s1 = trace s @ [(SysLstat p, err_of r1)]"
  "os_Readlink p s = (r2, s1) \<Longrightarrow> trace s1 = trace s @ [(SysReadlink p, err_of r2)]"
  "ioutil_ReadDir p s = (r3, s1) \<Longrightarrow> trace s1 = trace s @ [(SysReadDir p, err_of r3)]"
  "readDirNames p s = (r4, s1) \<Longrightarrow> trace s1 = trace s @ [(SysReadDir p, err_of r4)]"
  "os_Chmod p m s = (r5, s1) \<Longrightarrow> trace s1 = trace s @ [(SysChmod p (Perm m), r5)]"
  "os_Chown p u g s = (r5, s1) \<Longrightarrow> trace s1 = trace s @ [(SysChown p u g, r5)]"
  "os_Chtimes p a b s = (r5, s1) \<Longrightarrow> trace s1 = trace s @ [(SysChtimes p a b, r5)]"
  "os_Symlink l p s = (r5, s1) \<Longrightarrow> trace s1 = trace s @ [(SysSymlink l p, r5)]"
  "os_MkdirAll p m s = (r5, s1) \<Longrightarrow> trace s1 = trace s @ [(SysMkdirAll p (Perm m), r5)]"
  "os_Open p s = (r6, s1) \<Longrightarrow> trace s1 = trace s @ [(SysOpen p, err_of r6)]"
  "os_Create p s = (r6, s1) \<Longrightarrow> trace s1 = trace s @ [(SysCreate p, err_of r6)]"
  "file_Close fd s = (r5, s1) \<Longrightarrow> trace s1 = trace s @ [(SysClose fd, r5)]"
  "file_Chmod fd m s = (r5, s1) \<Longrightarrow> trace s1 = trace s @ [(SysFchmod fd (Perm m), r5)]"
  "file_Sync fd s = (r5, s1) \<Longrightarrow> trace s1 = trace s @ [(SysFsync fd, r5)]"
  "io_Copy dst src s = (r6, s1) \<Longrightarrow> trace s1 = trace s @ [(SysCopy dst src, err_of r6)]"
  using os_simple_trace(1)[of p s] os_simple_trace(2)[of p s] os_simple_trace(3)[of p s]
    os_simple_trace(4)[of p s] os_simple_trace(5)[of p s] os_simple_trace(6)[of p m s]
    os_simple_trace(7)[of p u g s] os_simple_trace(8)[of p a b s] os_simple_trace(9)[of l p s]
    os_handle_trace(1)[of p m s] os_handle_trace(2)[of p s] os_handle_trace(3)[of p s]
    os_handle_trace(4)[of fd s] os_handle_trace(5)[of fd m s] os_handle_trace(6)[of fd s]
    os_handle_trace(7)[of dst src s]
  by simp_all

lemma get_node_append:
  "get_node t (p @ q) = (case get_node t p of None \<Rightarrow> None | Some n \<Rightarrow> get_node n q)"
proof (induction p arbitrary: t)
  case Nil
  show ?case by simp
next
  case (Cons c cs)
  show ?case by (cases t) (auto simp: Cons.IH split: option.splits)
qed

lemma get_node_leaf:
  "q \<noteq> [] \<Longrightarrow> get_node (File a c) q = None" "q \<noteq> [] \<Longrightarrow> get_node (Symlink a l) q = None"
  by (cases q; simp)+

lemma map_of_map_entry:
  "map_of (map (\<lambda>e. if fst e = c then (fst e, g (snd e)) else e) es) k =
     (if k = c then map_option g (map_of es k) else map_of es k)"
  by (induction es) auto

lemma get_node_map_at_under:
  "get_node (map_at p f t) (p @ r) =
     (case get_node t p of None \<Rightarrow> None | Some n \<Rightarrow> get_node (f n) r)"
proof (induction p arbitrary: t)
  case Nil
  show ?case by simp
next
  case (Cons c cs)
  show ?case by (cases t) (auto simp: Cons.IH map_of_map_entry split: option.splits)
qed

lemma get_node_map_at_above:
  "r \<noteq> [] \<Longrightarrow> get_node (map_at (q @ r) f t) q = map_option (map_at r f) (get_node t q)"
proof (induction q arbitrary: t)
  case Nil
  then show ?case by simp
next
  case (Cons c cs)
  then show ?case by (cases t) (auto simp: map_of_map_entry split: option.splits)
qed

lemma get_node_map_at_other:
  "\<not> prefix p q \<Longrightarrow> \<not> prefix q p \<Longrightarrow> get_node (map_at p f t) q = get_node t q"
proof (induction p arbitrary: t q)
  case Nil
  then show ?case by simp
next
  case (Cons c cs)
  then obtain d ds where q: "q = d # ds" by (cases q) auto
  show ?case
  proof (cases t)
    case (Dir a es)
    then show ?thesis using Cons q
      by (auto simp: map_of_map_entry split: option.splits)
  qed (simp_all add: q)
qed

lemma kind_of_map_at_Cons: "kind_of (map_at (c # cs) f n) = kind_of n"
  by (cases n) simp_all

lemma kind_at_map_at:
  assumes "\<And>n r. get_node t p = Some n \<Longrightarrow> kind_at (f n) r = kind_at n r"
  shows "kind_at (map_at p f t) q = kind_at t q"
proof (cases "prefix p q")
  case True
  then obtain r where "q = p @ r" by (auto simp: prefix_def)
  then show ?thesis using assms
    by (cases "get_node t p")
       (simp_all add: kind_at_def get_node_map_at_under get_node_append[of t])
next
  case False
  show ?thesis
  proof (cases "prefix q p")
    case True
    then obtain r where r: "p = q @ r" by (auto simp: prefix_def)
    with False have "r \<noteq> []" by auto
    then obtain c cs where "r = c # cs" by (cases r) auto
    then show ?thesis using r
      by (cases "get_node t q")
         (simp_all add: kind_at_def get_node_map_at_above kind_of_map_at_Cons)
  next
    case F2: False
    with False show ?thesis by (simp add: kind_at_def get_node_map_at_other)
  qed
qed

lemma kind_at_upd_attrs: "kind_at (upd_attrs g n) r = kind_at n r"
  by (cases n; cases r) (simp_all add: kind_at_def)

lemma kind_at_map_at_upd_attrs: "kind_at (map_at p (upd_attrs g) t) = kind_at t"
  by (rule ext) (simp add: kind_at_map_at kind_at_upd_attrs)

lemma kind_at_write_file: "kind_at (write_file tm d n) r = kind_at n r"
  by (cases n; cases r) (simp_all add: kind_at_def)

lemma kind_at_map_at_write_file: "kind_at (map_at p (write_file tm d) t) = kind_at t"
  by (rule ext) (simp add: kind_at_map_at kind_at_write_file)

definition preserved :: "(world \<Rightarrow> bool) \<Rightarrow> bool" where
  "preserved I \<longleftrightarrow>
     (\<forall>s. I s \<longrightarrow>
        (\<forall>p. I (snd (os_Stat p s))) \<and> (\<forall>p. I (snd (os_Lstat p s))) \<and>
        (\<forall>p. I (snd (os_Readlink p s))) \<and> (\<forall>p. I (snd (ioutil_ReadDir p s))) \<and>
        (\<forall>p. I (snd (readDirNames p s))) \<and> (\<forall>p m. I (snd (os_Chmod p m s))) \<and>
        (\<forall>p u g. I (snd (os_Chown p u g s))) \<and> (\<forall>p a b. I (snd (os_Chtimes p a b s))) \<and>
        (\<forall>l p. I (snd (os_Symlink l p s))) \<and> (\<forall>p m. I (snd (os_MkdirAll p m s))) \<and>
        (\<forall>p. I (snd (os_Open p s))) \<and> (\<forall>p. I (snd (os_Create p s))) \<and>
        (\<forall>fd. I (snd (file_Close fd s))) \<and> (\<forall>fd m. I (snd (file_Chmod fd m s))) \<and>
        (\<forall>fd. I (snd (file_Sync fd s))) \<and> (\<forall>d r. I (snd (io_Copy d r s))))"

lemma preservedD:
  assumes "preserved I" and "I s"
  shows "I (snd (os_Stat p s))" "I (snd (os_Lstat p s))" "I (snd (os_Readlink p s))"
    "I (snd (ioutil_ReadDir p s))" "I (snd (readDirNames p s))" "I (snd (os_Chmod p m s))"
    "I (snd (os_Chown p u g s))" "I (snd (os_Chtimes p a b s))" "I (snd (os_Symlink l p s))"
    "I (snd (os_MkdirAll p m s))" "I (snd (os_Open p s))" "I (snd (os_Create p s))"
    "I (snd (file_Close fd s))" "I (snd (file_Chmod fd m s))" "I (snd (file_Sync fd s))"
    "I (snd (io_Copy d r s))"
  using assms unfolding preserved_def by simp_all

lemma preservedE:
  assumes "preserved I" and "I s"
  shows "os_Stat p s = (r1, s') \<Longrightarrow> I s'" "os_Lstat p s = (r1, s') \<Longrightarrow> I s'"
    "os_Readlink p s = (r2, s') \<Longrightarrow> I s'"
    "ioutil_ReadDir p s = (r3, s') \<Longrightarrow> I s'" "readDirNames p s = (r4, s') \<Longrightarrow> I s'"
    "os_Chmod p m s = (r5, s') \<Longrightarrow> I s'"
    "os_Chown p u g s = (r5, s') \<Longrightarrow> I s'" "os_Chtimes p a b s = (r5, s') \<Longrightarrow> I s'"
    "os_Symlink l p s = (r5, s') \<Longrightarrow> I s'"
    "os_MkdirAll p m s = (r5, s') \<Longrightarrow> I s'" "os_Open p s = (r6, s') \<Longrightarrow> I s'"
    "os_Create p s = (r6, s') \<Longrightarrow> I s'"
    "file_Close fd s = (r5, s') \<Longrightarrow> I s'" "file_Chmod fd m s = (r5, s') \<Longrightarrow> I s'"
    "file_Sync fd s = (r5, s') \<Longrightarrow> I s'"
    "io_Copy d r s = (r6, s') \<Longrightarrow> I s'"
  using assms unfolding preserved_def by (metis snd_conv)+

lemma cpSymlink_preserved:
  assumes P: "preserved I" and I: "I s"
  shows "I (snd (cpSymlink src dest s))"
  unfolding cpSymlink_def
  by (auto simp: split_beta split: sum.split intro!: preservedD[OF P] I)

lemma cpContents_preserved:
  assumes P: "preserved I" and I: "I s"
  shows "I (snd (cpContents out inp si dest args s))"
  unfolding cpContents_def
  by (auto simp: split_beta split: sum.split option.split intro!: preservedD[OF P] I)

lemma run_defers_preserved:
  assumes P: "preserved I" and I: "I (snd r)"
  shows "I (snd (run_defers out inp r))"
  unfolding run_defers_def
  by (auto simp: split_beta intro!: preservedD[OF P] I)

lemma cpFileCase_preserved:
  assumes P: "preserved I" and I: "I s"
  shows "I (snd (cpFileCase source dest args s))"
  unfolding cpFileCase_def
  by (auto simp: split_beta split: sum.split
      intro!: preservedD[OF P] I cpSymlink_preserved[OF P] run_defers_preserved[OF P]
        cpContents_preserved[OF P])

definition dirSetup :: "string \<Rightarrow> string \<Rightarrow> FileInfo \<Rightarrow> world \<Rightarrow> (error + FileInfo list) \<times> world" where
  "dirSetup source dest sourceInfo s1 =
     (case os_Open dest s1 of
        (r, s2) \<Rightarrow>
          if \<not> IsNotExist (err_of r)
          then (Inl (ErrorString ''destination already exists''), s2)
          else
            (case os_MkdirAll dest (Mode sourceInfo) s2 of
               (Some err, s3) \<Rightarrow> (Inl err, s3)
             | (None, s3) \<Rightarrow> ioutil_ReadDir source s3))"

lemma CpWithArgs_unfold:
  "CpWithArgs source dest args s =
     (case os_Stat source s of
        (Inl err, s1) \<Rightarrow> (Some err, s1)
      | (Inr sourceInfo, s1) \<Rightarrow>
          if IsDir (Mode sourceInfo) then
            if \<not> Recursive args then (Some (ErrorString ''source is a directory''), s1)
            else (case dirSetup source dest sourceInfo s1 of
                    (Inl err, s4) \<Rightarrow> (Some err, s4)
                  | (Inr files, s4) \<Rightarrow> cpFiles source dest args files s4)
          else cpFileCase source dest args s1)"
  by (subst CpWithArgs.simps)
     (simp add: dirSetup_def split: prod.splits sum.splits option.splits)

lemma Cp_induct [case_names CpWithArgs Nil Cons]:
  assumes "\<And>source dest args s.
      (\<And>si s1 files s4. os_Stat source s = (Inr si, s1) \<Longrightarrow> IsDir (Mode si) \<Longrightarrow> Recursive args \<Longrightarrow>
          dirSetup source dest si s1 = (Inr files, s4) \<Longrightarrow> Q source dest args files s4)
      \<Longrightarrow> P source dest args s"
    and "\<And>source dest args s. Q source dest args [] s"
    and "\<And>source dest args file files s.
      P (source @ ''/'' @ Name file) (dest @ ''/'' @ Name file) args s \<Longrightarrow>
      (\<And>s'. CpWithArgs (source @ ''/'' @ Name file) (dest @ ''/'' @ Name file) args s = (None, s')
          \<Longrightarrow> Q source dest args files s') \<Longrightarrow>
      Q source dest args (file # files) s"
  shows "P source dest args s" and "Q source dest args files s"
proof (induction source dest args s and source dest args files s rule: CpWithArgs_cpFiles.induct)
  case (1 source dest args s)
  show ?case
  proof (rule assms(1))
    fix si s1 files s4
    assume st: "os_Stat source s = (Inr si, s1)" and d: "IsDir (Mode si)" and r: "Recursive args"
      and ds: "dirSetup source dest si s1 = (Inr files, s4)"
    obtain r2 s2 where op: "os_Open dest s1 = (r2, s2)" by (cases "os_Open dest s1")
    obtain r3 s3 where mk: "os_MkdirAll dest (Mode si) s2 = (r3, s3)"
      by (cases "os_MkdirAll dest (Mode si) s2")
    from ds op mk have ne: "IsNotExist (err_of r2)" and r3: "r3 = None"
      and rd: "ioutil_ReadDir source s3 = (Inr files, s4)"
      by (auto simp: dirSetup_def split: if_splits option.splits)
    show "Q source dest args files s4"
      by (rule 1[OF st[symmetric] refl d _ op[symmetric] _ mk[symmetric, unfolded r3] refl rd[symmetric] refl])
         (use r ne in simp_all)
  qed
next
  case (2 source dest args s)
  show ?case by (rule assms(2))
next
  case (3 source dest args f fs s)
  show ?case
  proof (rule assms(3))
    show "P (source @ ''/'' @ Name f) (dest @ ''/'' @ Name f) args s" by (rule 3(1))
  next
    fix s'
    assume "CpWithArgs (source @ ''/'' @ Name f) (dest @ ''/'' @ Name f) args s = (None, s')"
    then show "Q source dest args fs s'"
      by (intro 3(2)[OF _ refl]) simp
  qed
qed


lemma dirSetup_preserved:
  assumes P: "preserved I" and I: "I s"
  shows "I (snd (dirSetup source dest si s))"
  unfolding dirSetup_def
  by (auto simp: split_beta split: sum.split option.split intro!: preservedD[OF P] I)

lemma CpWithArgs_preserved:
  assumes P: "preserved I"
  shows "I s \<Longrightarrow> I (snd (CpWithArgs source dest args s))"
    and "I s \<Longrightarrow> I (snd (cpFiles source dest args files s))"
proof (induction source dest args s and source dest args files s rule: Cp_induct)
  case (CpWithArgs source dest args s)
  obtain r1 s1 where st: "os_Stat source s = (r1, s1)" by (cases "os_Stat source s")
  have I1: "I s1" using preservedE(1)[OF P CpWithArgs.prems st] .
  show ?case
  proof (cases r1)
    case (Inl e)
    then show ?thesis using st I1 by (simp add: CpWithArgs_unfold)
  next
    case (Inr si)
    obtain r4 s4 where ds: "dirSetup source dest si s1 = (r4, s4)"
      by (cases "dirSetup source dest si s1")
    have I4: "I s4" using dirSetup_preserved[OF P I1, of source dest si] ds by simp
    show ?thesis
    proof (cases "IsDir (Mode si) \<and> Recursive args")
      case True
      show ?thesis
      proof (cases r4)
        case (Inl e)
        then show ?thesis using st Inr True ds I4 by (simp add: CpWithArgs_unfold)
      next
        case files: (Inr files)
        from CpWithArgs.IH[OF st[unfolded Inr] _ _ ds[unfolded files] I4] True
        have "I (snd (cpFiles source dest args files s4))" by simp
        then show ?thesis using st Inr True ds files by (simp add: CpWithArgs_unfold)
      qed
    next
      case False
      then show ?thesis using st Inr I1 cpFileCase_preserved[OF P I1, of source dest args]
        by (auto simp: CpWithArgs_unfold)
    qed
  qed
next
  case (Nil source dest args s)
  then show ?case by simp
next
  case (Cons source dest args f fs s)
  obtain r s' where c: "CpWithArgs (source @ ''/'' @ Name f) (dest @ ''/'' @ Name f) args s = (r, s')"
    by fastforce
  from Cons.IH(1)[OF Cons.prems] c have I': "I s'" by simp
  show ?case
  proof (cases r)
    case None
    with Cons.IH(2)[OF c[unfolded None] I'] c show ?thesis by simp
  next
    case (Some e)
    with c I' show ?thesis by simp
  qed
qed

lemma preserved_trace: "preserved (\<lambda>s. prefix (trace s0) (trace s))"
  unfolding preserved_def by (simp add: trace_simps)

lemma calls_prefix: "prefix (trace s) (trace s') \<Longrightarrow> prefix (calls s) (calls s')"
  by (simp add: calls_def map_mono_prefix)

lemma CpWithArgs_trace_prefix:
  "prefix (trace s) (trace (snd (CpWithArgs source dest args s)))"
  by (rule CpWithArgs_preserved(1)[OF preserved_trace]) simp

lemma cpFiles_trace_prefix:
  "prefix (trace s) (trace (snd (cpFiles source dest args files s)))"
  by (rule CpWithArgs_preserved(2)[OF preserved_trace]) simp

subsection \<open>Name lookup\<close>

lemma kind_at_Nil: "kind_at t [] = Some (kind_of t)"
  by (simp add: kind_at_def)

lemma get_node_butlast:
  assumes "get_node t p = Some n" and "p \<noteq> []"
  shows "\<exists>a es. get_node t (butlast p) = Some (Dir a es) \<and> map_of es (last p) = Some n"
proof -
  have "get_node t (butlast p @ [last p]) = Some n" using assms by simp
  then show ?thesis
    by (cases "get_node t (butlast p)"; cases "the (get_node t (butlast p))")
       (auto simp: get_node_append split: option.splits)
qed

lemma kind_at_butlast: "kind_at t p \<noteq> None \<Longrightarrow> kind_at t (butlast p) \<noteq> None"
proof (cases "p = []")
  case False
  assume "kind_at t p \<noteq> None"
  then obtain n where "get_node t p = Some n" by (auto simp: kind_at_def)
  from get_node_butlast[OF this False] show ?thesis by (auto simp: kind_at_def)
qed simp

lemma kind_at_snoc_Dir:
  "kind_at t (p @ [c]) \<noteq> None \<Longrightarrow> kind_at t p = Some KDir"
proof -
  assume "kind_at t (p @ [c]) \<noteq> None"
  then obtain n where "get_node t (p @ [c]) = Some n" by (auto simp: kind_at_def)
  from get_node_butlast[OF this] show ?thesis by (auto simp: kind_at_def)
qed

text \<open>A missing result of a lookup lies in an existing directory.\<close>

lemma namei_missing_parent:
  "namei (kind_at t) fl b cur cs = Inr P \<Longrightarrow> kind_at t cur \<noteq> None \<Longrightarrow> kind_at t P = None
     \<Longrightarrow> P \<noteq> [] \<and> kind_at t (butlast P) = Some KDir"
proof (induction "kind_at t" fl b cur cs rule: namei.induct)
  case (1 fl b cur)
  then show ?case by simp
next
  case (2 fl b cur c cs)
  from "2.prems"(1) have d: "kind_at t cur = Some KDir"
    by (auto split: option.splits kind.splits)
  show ?case
  proof (cases "c = ''.''")
    case True
    then show ?thesis using 2 d by simp
  next
    case nd: False
    show ?thesis
    proof (cases "c = ''..''")
      case True
      then show ?thesis using 2 d nd kind_at_butlast[of t cur] by simp
    next
      case ndd: False
      show ?thesis
      proof (cases "kind_at t (cur @ [c])")
        case None
        then show ?thesis using "2.prems" d nd ndd by (auto split: if_splits)
      next
        case (Some k)
        show ?thesis
        proof (cases k)
          case KFile
          then show ?thesis using 2 d nd ndd Some by simp
        next
          case KDir
          then show ?thesis using 2 d nd ndd Some by simp
        next
          case (KLink l)
          show ?thesis
          proof (cases "cs = [] \<and> \<not> fl")
            case True
            then show ?thesis using "2.prems" d nd ndd Some KLink by auto
          next
            case False
            then obtain b' where b: "b = Suc b'" and l: "l \<noteq> []"
              using "2.prems"(1) d nd ndd Some KLink by (cases b) (auto split: if_splits)
            have ex: "kind_at t (if hd l = CHR ''/'' then [] else cur) \<noteq> None"
              using d by (simp add: kind_at_Nil)
            from "2.prems"(1) have
              "namei (kind_at t) fl b' (if hd l = CHR ''/'' then [] else cur) (split_path l @ cs) = Inr P"
              using d nd ndd Some KLink False b l by (auto split: if_splits)
            from "2.hyps"(5)[OF d refl nd ndd Some KLink False l b this ex "2.prems"(3)]
            show ?thesis .
          qed
        qed
      qed
    qed
  qed
qed

text \<open>
  A lookup that ended at a missing path ends at the same path once a node has been
  put there (and nothing else has changed kind).
\<close>

lemma namei_extend:
  "namei k fl b cur cs = Inr P \<Longrightarrow> k P = None \<Longrightarrow> (\<And>q. q \<noteq> P \<Longrightarrow> k' q = k q) \<Longrightarrow>
   k' P = Some knd \<Longrightarrow> (fl \<Longrightarrow> \<forall>l. knd \<noteq> KLink l) \<Longrightarrow> namei k' fl b cur cs = Inr P"
proof (induction k fl b cur cs rule: namei.induct)
  case (1 k fl b cur)
  then show ?case by simp
next
  case (2 k fl b cur c cs)
  from "2.prems"(1) have d: "k cur = Some KDir"
    by (auto split: option.splits kind.splits)
  then have "cur \<noteq> P" using "2.prems"(2) by auto
  then have d': "k' cur = Some KDir" using "2.prems"(3) d by simp
  show ?case
  proof (cases "c = ''.''")
    case True
    then show ?thesis using 2 d d' by simp
  next
    case nd: False
    show ?thesis
    proof (cases "c = ''..''")
      case True
      then show ?thesis using 2 d d' nd by simp
    next
      case ndd: False
      show ?thesis
      proof (cases "k (cur @ [c])")
        case None
        then have P: "P = cur @ [c]" and cs: "cs = []"
          using "2.prems"(1) d nd ndd by (auto split: if_splits)
        show ?thesis
        proof (cases knd)
          case (KLink l)
          then have "\<not> fl" using "2.prems"(5) by auto
          then show ?thesis using d' nd ndd P cs "2.prems"(4) KLink by simp
        qed (use d' nd ndd P cs "2.prems"(4) in simp_all)
      next
        case (Some x)
        then have ne: "cur @ [c] \<noteq> P" using "2.prems"(2) by auto
        then have k': "k' (cur @ [c]) = Some x" using "2.prems"(3) Some by simp
        show ?thesis
        proof (cases x)
          case KFile
          then show ?thesis using 2 d d' nd ndd Some k' by simp
        next
          case KDir
          then show ?thesis using 2 d d' nd ndd Some k' by simp
        next
          case (KLink l)
          show ?thesis
          proof (cases "cs = [] \<and> \<not> fl")
            case True
            then show ?thesis using "2.prems" d d' nd ndd Some k' KLink by auto
          next
            case False
            then obtain b' where b: "b = Suc b'" and l: "l \<noteq> []"
              using "2.prems"(1) d nd ndd Some KLink by (cases b) (auto split: if_splits)
            from "2.prems"(1) have
              "namei k fl b' (if hd l = CHR ''/'' then [] else cur) (split_path l @ cs) = Inr P"
              using d nd ndd Some KLink False b l by (auto split: if_splits)
            from "2.IH"(5)[OF d refl nd ndd Some KLink False l b this "2.prems"(2,3,4,5)]
            show ?thesis using d' nd ndd k' KLink False b l by auto
          qed
        qed
      qed
    qed
  qed
qed


text \<open>One more component after a lookup that ended in a directory.\<close>

lemma namei_snoc:
  "namei k True b cur cs = Inr P \<Longrightarrow> k P = Some KDir \<Longrightarrow> n \<noteq> ''.'' \<Longrightarrow> n \<noteq> ''..'' \<Longrightarrow>
   (fl \<Longrightarrow> \<forall>l. k (P @ [n]) \<noteq> Some (KLink l)) \<Longrightarrow>
   namei k fl b cur (cs @ [n]) = Inr (P @ [n])"
proof (induction k "True" b cur cs rule: namei.induct)
  case (1 k b cur)
  then show ?case by (cases "k (cur @ [n])"; cases "the (k (cur @ [n]))") auto
next
  case (2 k b cur c cs)
  from "2.prems"(1) have d: "k cur = Some KDir"
    by (auto split: option.splits kind.splits)
  show ?case
  proof (cases "c = ''.'' \<or> c = ''..''")
    case True
    then show ?thesis using 2 d by auto
  next
    case False
    then have nd: "c \<noteq> ''.''" and ndd: "c \<noteq> ''..''" by auto
    show ?thesis
    proof (cases "k (cur @ [c])")
      case None
      then show ?thesis using "2.prems" d nd ndd by (auto split: if_splits)
    next
      case (Some x)
      show ?thesis
      proof (cases x)
        case KFile
        then show ?thesis using 2 d nd ndd Some by simp
      next
        case KDir
        then show ?thesis using 2 d nd ndd Some by simp
      next
        case (KLink l)
        obtain b' where b: "b = Suc b'" and l: "l \<noteq> []"
          using "2.prems"(1) d nd ndd Some KLink by (cases b) (auto split: if_splits)
        from "2.prems"(1) have
          "namei k True b' (if hd l = CHR ''/'' then [] else cur) (split_path l @ cs) = Inr P"
          using d nd ndd Some KLink b l by (auto split: if_splits)
        from "2.hyps"(5)[OF d refl nd ndd Some KLink _ l b this "2.prems"(2,3,4,5)]
        show ?thesis using d nd ndd Some KLink b l by auto
      qed
    qed
  qed
qed

subsection \<open>The flat view of a tree\<close>

text \<open>
  What stands at a physical path, without the entries below it. Every system call
  of the model changes this view at one path at most.
\<close>

datatype entry = EFile attrs string | EDir attrs | ELink attrs string

fun entry_of :: "node \<Rightarrow> entry" where
  "entry_of (File a c) = EFile a c"
| "entry_of (Dir a es) = EDir a"
| "entry_of (Symlink a l) = ELink a l"

fun ekind :: "entry \<Rightarrow> kind" where
  "ekind (EFile a c) = KFile"
| "ekind (EDir a) = KDir"
| "ekind (ELink a l) = KLink l"

definition look :: "node \<Rightarrow> string list \<Rightarrow> entry option" where
  "look t q = map_option entry_of (get_node t q)"

lemma ekind_entry_of: "ekind (entry_of n) = kind_of n"
  by (cases n) simp_all

lemma kind_at_look: "kind_at t q = map_option ekind (look t q)"
  by (cases "get_node t q") (simp_all add: kind_at_def look_def ekind_entry_of)

lemma look_None: "look t q = None \<longleftrightarrow> get_node t q = None"
  by (simp add: look_def)

lemma look_eq_kind_at_eq: "look t' = look t \<Longrightarrow> kind_at t' = kind_at t"
  by (rule ext) (simp add: kind_at_look)

lemma resolve_cong: "kind_at t' = kind_at t \<Longrightarrow> resolve t' fl p = resolve t fl p"
  by (simp add: resolve_def)

lemma get_node_map_at_same: "get_node (map_at p f t) p = map_option f (get_node t p)"
  using get_node_map_at_under[of p f t "[]"] by (cases "get_node t p") simp_all

lemma entry_of_map_at_Cons: "entry_of (map_at (c # cs) f n) = entry_of n"
  by (cases n) simp_all

lemma look_map_at:
  assumes "\<And>n r. get_node t P = Some n \<Longrightarrow> r \<noteq> [] \<Longrightarrow> get_node (f n) r = get_node n r"
  shows "look (map_at P f t) q =
           (if q = P then map_option (\<lambda>n. entry_of (f n)) (get_node t P) else look t q)"
proof (cases "q = P")
  case True
  then show ?thesis by (cases "get_node t P") (simp_all add: look_def get_node_map_at_same)
next
  case ne: False
  show ?thesis
  proof (cases "prefix P q")
    case True
    then obtain r where q: "q = P @ r" by (auto simp: prefix_def)
    with ne have "r \<noteq> []" by auto
    then show ?thesis using assms ne q
      by (cases "get_node t P")
         (simp_all add: look_def get_node_map_at_under get_node_append[of t])
  next
    case np: False
    show ?thesis
    proof (cases "prefix q P")
      case True
      then obtain r where r: "P = q @ r" by (auto simp: prefix_def)
      with ne obtain c cs where "r = c # cs" by (cases r) auto
      then show ?thesis using r ne
        by (cases "get_node t q")
           (simp_all add: look_def get_node_map_at_above entry_of_map_at_Cons)
    next
      case False
      with np ne show ?thesis by (simp add: look_def get_node_map_at_other)
    qed
  qed
qed

lemma get_node_upd_attrs: "r \<noteq> [] \<Longrightarrow> get_node (upd_attrs f n) r = get_node n r"
  by (cases n; cases r) simp_all

lemma get_node_write_file: "r \<noteq> [] \<Longrightarrow> get_node (write_file tm d n) r = get_node n r"
  by (cases n; cases r) simp_all

lemma look_upd_attrs:
  "get_node t P = Some n \<Longrightarrow>
   look (map_at P (upd_attrs f) t) = (look t)(P \<mapsto> entry_of (upd_attrs f n))"
  by (rule ext) (simp add: look_map_at get_node_upd_attrs)

lemma look_upd_attrs_missing:
  "get_node t P = None \<Longrightarrow> look (map_at P (upd_attrs f) t) = look t"
  by (rule ext) (simp add: look_map_at get_node_upd_attrs, simp add: look_def)

lemma look_write_file:
  "get_node t P = Some (File a c) \<Longrightarrow>
   look (map_at P (write_file tm d) t) = (look t)(P \<mapsto> EFile (a\<lparr>mtime := tm\<rparr>) (d @ drop (length d) c))"
  by (rule ext) (simp add: look_map_at get_node_write_file)

lemma look_truncate:
  assumes "get_node t P = Some (File a c)"
  shows "look (map_at P (\<lambda>n. File b []) t) = (look t)(P \<mapsto> EFile b [])"
proof (rule ext)
  fix q
  have "look (map_at P (\<lambda>n. File b []) t) q =
          (if q = P then map_option (\<lambda>n. entry_of (File b [])) (get_node t P) else look t q)"
    by (rule look_map_at) (use assms in \<open>auto simp: get_node_leaf\<close>)
  then show "look (map_at P (\<lambda>n. File b []) t) q = ((look t)(P \<mapsto> EFile b [])) q"
    using assms by simp
qed

lemma map_of_snoc:
  "map_of (es @ [(c, v)]) k = (case map_of es k of Some w \<Rightarrow> Some w | None \<Rightarrow> if k = c then Some v else None)"
  by (induction es) auto

lemma look_add_entry:
  assumes D: "get_node t D = Some (Dir a es)" and c: "map_of es c = None"
    and leaf: "\<And>r. r \<noteq> [] \<Longrightarrow> get_node new r = None"
  shows "look (map_at D (add_entry c new) t) = (look t)(D @ [c] \<mapsto> entry_of new)"
proof (rule ext)
  fix q
  show "look (map_at D (add_entry c new) t) q = ((look t)(D @ [c] \<mapsto> entry_of new)) q"
  proof (cases "prefix D q")
    case True
    then obtain r where q: "q = D @ r" by (auto simp: prefix_def)
    show ?thesis
    proof (cases r)
      case Nil
      then show ?thesis using q D by (simp add: look_def get_node_map_at_same)
    next
      case (Cons c' r')
      have eq: "get_node (map_at D (add_entry c new) t) q = get_node (Dir a (es @ [(c, new)])) r"
        using q D by (simp add: get_node_map_at_under)
      have old: "get_node t q = get_node (Dir a es) r" using q D by (simp add: get_node_append)
      show ?thesis
      proof (cases "c' = c")
        case True
        then show ?thesis using eq old Cons c q leaf[of r']
          by (cases "r' = []") (auto simp: look_def map_add_def)
      next
        case False
        then show ?thesis using eq old Cons q
          by (auto simp: look_def map_add_def split: option.splits)
      qed
    qed
  next
    case np: False
    then have ne: "q \<noteq> D @ [c]" by auto
    show ?thesis
    proof (cases "prefix q D")
      case True
      then obtain r where r: "D = q @ r" by (auto simp: prefix_def)
      with np obtain x xs where "r = x # xs" by (cases r) auto
      then show ?thesis using r ne
        by (cases "get_node t q")
           (simp_all add: look_def get_node_map_at_above entry_of_map_at_Cons)
    next
      case False
      with np ne show ?thesis by (simp add: look_def get_node_map_at_other)
    qed
  qed
qed

lemma missing_in_parent:
  assumes "namei (kind_at t) fl b [] cs = Inr P" and "get_node t P = None"
  shows "P \<noteq> [] \<and> (\<exists>a es. get_node t (butlast P) = Some (Dir a es) \<and> map_of es (last P) = None)"
proof -
  have ex: "kind_at t [] \<noteq> None" by (simp add: kind_at_Nil)
  have m: "kind_at t P = None" using assms(2) by (simp add: kind_at_def)
  from namei_missing_parent[OF assms(1) ex m] have P: "P \<noteq> []"
    and k: "kind_at t (butlast P) = Some KDir" by auto
  from k obtain n where n: "get_node t (butlast P) = Some n" "kind_of n = KDir"
    by (auto simp: kind_at_def)
  then obtain a es where d: "n = Dir a es" by (cases n) auto
  have "get_node t (butlast P @ [last P]) = None" using assms(2) P by simp
  then have "map_of es (last P) = None" using n d
    by (auto simp: get_node_append split: option.splits)
  then show ?thesis using P n d by auto
qed

lemma resolve_missing_in_parent:
  assumes "resolve t fl p = Inr P" and "get_node t P = None"
  shows "P \<noteq> [] \<and> (\<exists>a es. get_node t (butlast P) = Some (Dir a es) \<and> map_of es (last P) = None)"
  using assms missing_in_parent[of t fl 40 "lookup_comps p" P]
  by (auto simp: resolve_def split: if_splits)

text \<open>A new leaf at the missing end of a lookup.\<close>

lemma look_new_leaf:
  assumes r: "resolve t fl p = Inr P" and m: "get_node t P = None"
    and leaf: "\<And>r. r \<noteq> [] \<Longrightarrow> get_node new r = None"
  shows "look (map_at (butlast P) (add_entry (last P) new) t) = (look t)(P \<mapsto> entry_of new)"
proof -
  from resolve_missing_in_parent[OF r m] obtain a es where P: "P \<noteq> []"
    and d: "get_node t (butlast P) = Some (Dir a es)" and c: "map_of es (last P) = None" by auto
  from look_add_entry[OF d c leaf] P show ?thesis by simp
qed

lemma resolve_after_new:
  assumes r: "resolve t fl p = Inr P" and m: "look t P = None"
    and l: "look t' = (look t)(P \<mapsto> e)" and e: "fl \<Longrightarrow> \<forall>x. ekind e \<noteq> KLink x"
  shows "resolve t' fl p = Inr P"
proof -
  have n: "namei (kind_at t) fl 40 [] (lookup_comps p) = Inr P"
    and p: "p \<noteq> []" "\<not> PATH_MAX \<le> length p"
    using r by (auto simp: resolve_def split: if_splits)
  have "namei (kind_at t') fl 40 [] (lookup_comps p) = Inr P"
  proof (rule namei_extend[OF n])
    show "kind_at t P = None" using m by (simp add: kind_at_look)
    show "kind_at t' q = kind_at t q" if "q \<noteq> P" for q using that l by (simp add: kind_at_look)
    show "kind_at t' P = Some (ekind e)" using l by (simp add: kind_at_look)
    show "\<forall>x. ekind e \<noteq> KLink x" if fl using e that by simp
  qed
  then show ?thesis using p by (simp add: resolve_def)
qed

lemma resolve_after_same_kind:
  assumes l: "look t' = (look t)(P \<mapsto> e)" and k: "map_option ekind (look t P) = Some (ekind e)"
  shows "resolve t' fl p = resolve t fl p"
proof (rule resolve_cong, rule ext)
  fix q show "kind_at t' q = kind_at t q" using l k by (cases "q = P") (auto simp: kind_at_look)
qed

subsection \<open>What a successful system call has done\<close>

lemma query_InrD:
  "query c f s = (Inr v, s1) \<Longrightarrow> fault_at s = None \<and> f (root s) = Inr v \<and> s1 = log c None s"
  by (auto simp: query_def split: option.splits sum.splits prod.splits)

lemma command_NoneD:
  "command c f s = (None, s1) \<Longrightarrow>
     fault_at s = None \<and> (\<exists>t. f (root s) = Inr t \<and> s1 = (log c None s)\<lparr>root := t\<rparr>)"
  by (auto simp: command_def split: option.splits sum.splits prod.splits)

lemma os_Stat_InrD:
  "os_Stat p s = (Inr i, s1) \<Longrightarrow>
     fault_at s = None \<and> fs_stat True (root s) p = Inr i \<and> s1 = log (SysStat p) None s"
  unfolding os_Stat_def by (rule query_InrD)

lemma os_Lstat_InrD:
  "os_Lstat p s = (Inr i, s1) \<Longrightarrow>
     fault_at s = None \<and> fs_stat False (root s) p = Inr i \<and> s1 = log (SysLstat p) None s"
  unfolding os_Lstat_def by (rule query_InrD)

lemma os_Readlink_InrD:
  "os_Readlink p s = (Inr l, s1) \<Longrightarrow>
     fault_at s = None \<and> fs_readlink (root s) p = Inr l \<and> s1 = log (SysReadlink p) None s"
  unfolding os_Readlink_def by (rule query_InrD)

lemma os_Open_InrD:
  "os_Open p s = (Inr fd, s1) \<Longrightarrow>
     \<exists>P. fs_open (root s) p = Inr P \<and> fd = next_fd s \<and>
         s1 = (log (SysOpen p) None s)\<lparr>handles := (fd, P) # handles s, next_fd := Suc fd\<rparr>"
  by (auto simp: os_Open_def split: option.splits sum.splits prod.splits)

lemma os_Create_InrD:
  "os_Create p s = (Inr fd, s1) \<Longrightarrow>
     \<exists>P t. fs_create (new_attrs s 438) (root s) p = Inr (P, t) \<and> fd = next_fd s \<and>
         s1 = (log (SysCreate p) None s)\<lparr>root := t, handles := (fd, P) # handles s,
                                          next_fd := Suc fd\<rparr>"
  by (auto simp: os_Create_def split: option.splits sum.splits prod.splits)

lemma io_Copy_InrD:
  "io_Copy dst src s = (Inr n, s1) \<Longrightarrow>
     \<exists>Po Pi ao old ai d. map_of (handles s) dst = Some Po \<and> map_of (handles s) src = Some Pi \<and>
        get_node (root s) Po = Some (File ao old) \<and> get_node (root s) Pi = Some (File ai d) \<and>
        s1 = (log (SysCopy dst src) None s)\<lparr>root := map_at Po (write_file (now s) d) (root s)\<rparr>"
  by (auto simp: io_Copy_def split: option.splits sum.splits prod.splits node.splits)

lemma file_Chmod_NoneD:
  "file_Chmod fd m s = (None, s1) \<Longrightarrow>
     \<exists>P. map_of (handles s) fd = Some P \<and>
         s1 = (log (SysFchmod fd (Perm m)) None s)
                \<lparr>root := map_at P (upd_attrs (\<lambda>a. a\<lparr>perm := Perm m\<rparr>)) (root s)\<rparr>"
  by (auto simp: file_Chmod_def command_def split: option.splits sum.splits prod.splits)

lemma file_Sync_same:
  "file_Sync fd s = (r, s1) \<Longrightarrow> root s1 = root s \<and> handles s1 = handles s \<and> next_fd s1 = next_fd s"
  by (auto simp: file_Sync_def command_def log_simps split: option.splits sum.splits prod.splits)

lemma file_Close_same:
  "file_Close fd s = (r, s1) \<Longrightarrow>
     root s1 = root s \<and> next_fd s1 = next_fd s \<and>
     handles s1 = (if map_of (handles s) fd = None then handles s
                   else filter (\<lambda>h. fst h \<noteq> fd) (handles s))"
  by (auto simp: file_Close_def log_simps split: option.splits sum.splits prod.splits)

text \<open>The effect on the flat view.\<close>

lemma fs_update_InrD:
  assumes "fs_update f t p = Inr t'"
  shows "\<exists>P n. resolve t True p = Inr P \<and> get_node t P = Some n \<and>
           look t' = (look t)(P \<mapsto> entry_of (upd_attrs f n)) \<and> resolve t' True p = Inr P"
proof -
  from assms obtain P n where r: "resolve t True p = Inr P" and n: "get_node t P = Some n"
    and t': "t' = map_at P (upd_attrs f) t"
    by (auto simp: fs_update_def split: sum.splits option.splits)
  have l: "look t' = (look t)(P \<mapsto> entry_of (upd_attrs f n))" using n t' by (simp add: look_upd_attrs)
  have "resolve t' True p = resolve t True p"
    by (rule resolve_after_same_kind[OF l]) (cases n; simp add: look_def n)
  with r n l show ?thesis by auto
qed

lemma fs_create_InrD:
  assumes "fs_create a0 t p = Inr (P, t')"
  shows "resolve t True p = Inr P \<and> resolve t' True p = Inr P \<and>
         (\<exists>b. look t' = (look t)(P \<mapsto> EFile b []) \<and>
              (look t P = None \<or> (\<exists>b0 c0. look t P = Some (EFile b0 c0))))"
proof -
  from assms have nt: "\<not> (dir_only p \<and> length p < PATH_MAX)"
    by (auto simp: fs_create_def split: sum.splits)
  from assms have r: "resolve t True p = Inr P"
    by (auto simp: fs_create_def split: sum.splits option.splits node.splits if_splits)
  show ?thesis
  proof (cases "get_node t P")
    case None
    then have t': "t' = map_at (butlast P) (add_entry (last P) (File a0 [])) t"
      using assms r nt by (auto simp: fs_create_def split: if_splits)
    have l: "look t' = (look t)(P \<mapsto> entry_of (File a0 []))"
      unfolding t' by (rule look_new_leaf[OF r None]) (simp add: get_node_leaf)
    have "resolve t' True p = Inr P"
      by (rule resolve_after_new[OF r _ l]) (simp_all add: look_def None)
    then show ?thesis using r l None by (auto simp: look_def)
  next
    case (Some n)
    then obtain b c where n: "n = File b c" using assms r nt
      by (cases n) (auto simp: fs_create_def)
    then have t': "t' = map_at P (\<lambda>n. File (b\<lparr>mtime := mtime a0\<rparr>) []) t"
      using assms r Some nt by (auto simp: fs_create_def)
    have l: "look t' = (look t)(P \<mapsto> EFile (b\<lparr>mtime := mtime a0\<rparr>) [])"
      unfolding t' using Some n by (simp add: look_truncate)
    have "resolve t' True p = resolve t True p"
      by (rule resolve_after_same_kind[OF l]) (simp add: look_def Some n)
    then show ?thesis using r l Some n by (auto simp: look_def)
  qed
qed

lemma fs_symlink_InrD:
  assumes "fs_symlink a l t p = Inr t'"
  shows "\<exists>P. resolve t False p = Inr P \<and> look t P = None \<and>
           look t' = (look t)(P \<mapsto> ELink a l) \<and> resolve t' False p = Inr P"
proof -
  from assms obtain P where r: "resolve t False p = Inr P" and m: "get_node t P = None"
    and t': "t' = map_at (butlast P) (add_entry (last P) (Symlink a l)) t"
    by (auto simp: fs_symlink_def split: sum.splits option.splits if_splits)
  have l: "look t' = (look t)(P \<mapsto> entry_of (Symlink a l))"
    unfolding t' by (rule look_new_leaf[OF r m]) (simp add: get_node_leaf)
  have "resolve t' False p = Inr P"
    by (rule resolve_after_new[OF r _ l]) (simp_all add: look_def m)
  then show ?thesis using r m l by (auto simp: look_def)
qed


lemma look_EFile: "look t P = Some (EFile a c) \<longleftrightarrow> get_node t P = Some (File a c)"
proof (cases "get_node t P")
  case (Some n)
  then show ?thesis by (cases n) (simp_all add: look_def)
qed (simp add: look_def)

lemma look_ELink: "look t P = Some (ELink a l) \<longleftrightarrow> get_node t P = Some (Symlink a l)"
proof (cases "get_node t P")
  case (Some n)
  then show ?thesis by (cases n) (simp_all add: look_def)
qed (simp add: look_def)


fun eupd :: "(attrs \<Rightarrow> attrs) \<Rightarrow> entry \<Rightarrow> entry" where
  "eupd f (EFile a c) = EFile (f a) c"
| "eupd f (EDir a) = EDir (f a)"
| "eupd f (ELink a l) = ELink (f a) l"




lemma ekind_eupd: "ekind (eupd f e) = ekind e"
  by (cases e) simp_all


lemma cpFileCase_content:
  assumes "os_Lstat source s = (Inr si, s1)" and "\<not> (PreserveLinks args \<and> \<not> IsRegular (Mode si))"
  shows "cpFileCase source dest args s =
     (case os_Open source s1 of
        (Inl err, s2) \<Rightarrow> (Some err, s2)
      | (Inr inp, s2) \<Rightarrow>
          (case os_Create dest s2 of
             (Inl err, s3) \<Rightarrow> (Some err, snd (file_Close inp s3))
           | (Inr out, s3) \<Rightarrow> run_defers out inp (cpContents out inp si dest args s3)))"
  using assms by (cases "PreserveLinks args") (simp_all add: cpFileCase_def)

lemma cpFileCase_symlink:
  assumes "os_Lstat source s = (Inr si, s1)" and "PreserveLinks args" and "\<not> IsRegular (Mode si)"
  shows "cpFileCase source dest args s = cpSymlink source dest s1"
  using assms by (simp add: cpFileCase_def)

lemma cpContents_NoneD:
  assumes "cpContents out inp si dest args s3 = (None, s7)"
  shows "\<exists>n s4 s5 s6 serr. io_Copy out inp s3 = (Inr n, s4) \<and>
           file_Chmod out (Mode si) s4 = (None, s5) \<and>
           (if PreserveTimestamps args
            then os_Chtimes dest (ModTime si) (ModTime si) s5 = (None, s6) else s6 = s5) \<and>
           file_Sync out s6 = (serr, s7)"
proof -
  obtain r4 s4 where a: "io_Copy out inp s3 = (r4, s4)" by fastforce
  from assms a obtain n where r4: "r4 = Inr n" by (cases r4) (auto simp: cpContents_def)
  obtain r5 s5 where b: "file_Chmod out (Mode si) s4 = (r5, s5)" by fastforce
  from assms a r4 b have r5: "r5 = None" by (cases r5) (auto simp: cpContents_def)
  show ?thesis
  proof (cases "PreserveTimestamps args")
    case True
    obtain r6 s6 where c: "os_Chtimes dest (ModTime si) (ModTime si) s5 = (r6, s6)" by fastforce
    from assms a r4 b r5 c True have r6: "r6 = None" by (cases r6) (auto simp: cpContents_def)
    obtain r7 s7' where d: "file_Sync out s6 = (r7, s7')" by fastforce
    from assms a r4 b r5 c r6 d True have "s7' = s7" by (simp add: cpContents_def)
    then show ?thesis using a r4 b r5 c r6 d True by auto
  next
    case False
    obtain r7 s7' where d: "file_Sync out s5 = (r7, s7')" by fastforce
    from assms a r4 b r5 d False have "s7' = s7" by (simp add: cpContents_def)
    then show ?thesis using a r4 b r5 d False by auto
  qed
qed

lemma cpFileCase_content_NoneD:
  assumes ok: "cpFileCase source dest args s = (None, s')"
    and ls: "fs_stat False (root s) source = Inr si"
    and br: "\<not> (PreserveLinks args \<and> \<not> IsRegular (Mode si))"
  shows "\<exists>s1 inp s2 out s3 s7 c1 s8 c2.
           os_Lstat source s = (Inr si, s1) \<and> os_Open source s1 = (Inr inp, s2) \<and>
           os_Create dest s2 = (Inr out, s3) \<and>
           cpContents out inp si dest args s3 = (None, s7) \<and>
           file_Close out s7 = (c1, s8) \<and> file_Close inp s8 = (c2, s')"
proof -
  obtain r1 s1 where a: "os_Lstat source s = (r1, s1)" by fastforce
  from ok a obtain si' where r1: "r1 = Inr si'" by (cases r1) (auto simp: cpFileCase_def)
  from os_Lstat_InrD[OF a[unfolded r1]] ls have "si' = si" by simp
  with a r1 have a': "os_Lstat source s = (Inr si, s1)" by simp
  note u = cpFileCase_content[OF a' br, of dest]
  obtain r2 s2 where b: "os_Open source s1 = (r2, s2)" by fastforce
  from ok u b obtain inp where r2: "r2 = Inr inp" by (cases r2) auto
  obtain r3 s3 where c: "os_Create dest s2 = (r3, s3)" by fastforce
  from ok u b r2 c obtain out where r3: "r3 = Inr out" by (cases r3) auto
  obtain rc s7 where d: "cpContents out inp si dest args s3 = (rc, s7)" by fastforce
  obtain c1 s8 where e: "file_Close out s7 = (c1, s8)" by fastforce
  obtain c2 s9 where f: "file_Close inp s8 = (c2, s9)" by fastforce
  from ok u b r2 c r3 d e f have "rc = None" "s9 = s'" by (simp_all add: run_defers_def)
  then show ?thesis using a' b r2 c r3 d e f by auto
qed

lemma CpWithArgs_file_NoneD:
  assumes ok: "CpWithArgs source dest args s = (None, s')"
    and st: "fs_stat True (root s) source = Inr i" and nd: "\<not> IsDir (Mode i)"
  shows "os_Stat source s = (Inr i, log (SysStat source) None s) \<and>
         cpFileCase source dest args (log (SysStat source) None s) = (None, s')"
proof -
  obtain r0 s0 where a: "os_Stat source s = (r0, s0)" by fastforce
  from ok a obtain i0 where r0: "r0 = Inr i0" by (cases r0) (auto simp: CpWithArgs_unfold)
  from os_Stat_InrD[OF a[unfolded r0]] st have "i0 = i" "s0 = log (SysStat source) None s" by simp_all
  then show ?thesis using ok a r0 nd by (simp add: CpWithArgs_unfold)
qed

subsection \<open>A path that exists\<close>

text \<open>
  A path that names a node when links are followed names one when the last link is
  not followed; and a lookup that ends in \<^verbatim>\<open>.\<close> is the lookup of a directory.
\<close>

lemma namei_follow_exists:
  "namei k True b cur cs = Inr P \<Longrightarrow> k P \<noteq> None \<Longrightarrow>
   \<exists>P'. namei k False b cur cs = Inr P' \<and> k P' \<noteq> None"
proof (induction k "True" b cur cs rule: namei.induct)
  case (1 k b cur)
  then show ?case by simp
next
  case (2 k b cur c cs)
  from "2.prems"(1) have d: "k cur = Some KDir"
    by (auto split: option.splits kind.splits)
  show ?case
  proof (cases "c = ''.'' \<or> c = ''..''")
    case True
    then show ?thesis using 2 d by auto
  next
    case False
    then have nd: "c \<noteq> ''.''" and ndd: "c \<noteq> ''..''" by auto
    show ?thesis
    proof (cases "k (cur @ [c])")
      case None
      then show ?thesis using "2.prems" d nd ndd by (auto split: if_splits)
    next
      case (Some x)
      show ?thesis
      proof (cases x)
        case KFile
        then show ?thesis using 2 d nd ndd Some by simp
      next
        case KDir
        then show ?thesis using 2 d nd ndd Some by simp
      next
        case (KLink l)
        obtain b' where b: "b = Suc b'" and l: "l \<noteq> []"
          using "2.prems"(1) d nd ndd Some KLink by (cases b) (auto split: if_splits)
        from "2.prems"(1) have
          "namei k True b' (if hd l = CHR ''/'' then [] else cur) (split_path l @ cs) = Inr P"
          using d nd ndd Some KLink b l by (auto split: if_splits)
        from "2.hyps"(5)[OF d refl nd ndd Some KLink _ l b this "2.prems"(2)]
        show ?thesis using d nd ndd Some KLink b l by auto
      qed
    qed
  qed
qed

lemma namei_dot_last:
  "namei k fl b cur (cs @ [''.'']) = Inr P \<Longrightarrow>
   namei k True b cur cs = Inr P \<and> k P = Some KDir"
proof (induction k "True" b cur cs rule: namei.induct)
  case (1 k b cur)
  then show ?case by (auto split: option.splits kind.splits)
next
  case (2 k b cur c cs)
  from "2.prems" have d: "k cur = Some KDir"
    by (auto split: option.splits kind.splits)
  show ?case
  proof (cases "c = ''.''")
    case True
    have p: "namei k fl b cur (cs @ [''.'']) = Inr P" using "2.prems" d True by simp
    from "2.hyps"(1)[OF d refl True p] show ?thesis using d True by simp
  next
    case nd: False
    show ?thesis
    proof (cases "c = ''..''")
      case True
      have p: "namei k fl b (butlast cur) (cs @ [''.'']) = Inr P"
        using "2.prems" d nd True by simp
      from "2.hyps"(2)[OF d refl nd True p] show ?thesis using d nd True by simp
    next
      case ndd: False
      show ?thesis
      proof (cases "k (cur @ [c])")
        case None
        then show ?thesis using "2.prems" d nd ndd by simp
      next
        case (Some x)
        show ?thesis
        proof (cases x)
          case KFile
          have p: "namei k fl b (cur @ [c]) (cs @ [''.'']) = Inr P"
            using "2.prems" d nd ndd Some KFile by simp
          from "2.hyps"(3)[OF d refl nd ndd Some KFile p] show ?thesis
            using d nd ndd Some KFile by simp
        next
          case KDir
          have p: "namei k fl b (cur @ [c]) (cs @ [''.'']) = Inr P"
            using "2.prems" d nd ndd Some KDir by simp
          from "2.hyps"(4)[OF d refl nd ndd Some KDir p] show ?thesis
            using d nd ndd Some KDir by simp
        next
          case (KLink l)
          have l: "l \<noteq> []" using "2.prems" d nd ndd Some KLink by (simp split: if_splits)
          obtain b' where b: "b = Suc b'"
            using "2.prems" d nd ndd Some KLink l by (cases b) simp_all
          have p: "namei k fl b' (if hd l = CHR ''/'' then [] else cur)
                     ((split_path l @ cs) @ [''.'']) = Inr P"
            using "2.prems" d nd ndd Some KLink b l by simp
          have "\<not> (cs = [] \<and> \<not> True)" by simp
          from "2.hyps"(5)[OF d refl nd ndd Some KLink this l b p]
          show ?thesis using d nd ndd Some KLink b l by simp
        qed
      qed
    qed
  qed
qed

lemma fs_open_InrD:
  "fs_open t p = Inr P \<Longrightarrow> resolve t True p = Inr P \<and> get_node t P \<noteq> None"
  by (auto simp: fs_open_def split: sum.splits option.splits)

lemma resolve_follow_exists:
  assumes "resolve t True p = Inr P" and "get_node t P \<noteq> None"
  shows "\<exists>P'. resolve t False p = Inr P' \<and> get_node t P' \<noteq> None"
proof -
  have n: "namei (kind_at t) True 40 [] (lookup_comps p) = Inr P"
    and p: "p \<noteq> []" "\<not> PATH_MAX \<le> length p"
    using assms(1) by (auto simp: resolve_def split: if_splits)
  have "kind_at t P \<noteq> None" using assms(2) by (auto simp: kind_at_def)
  from namei_follow_exists[OF n this] obtain P' where
    "namei (kind_at t) False 40 [] (lookup_comps p) = Inr P'" "kind_at t P' \<noteq> None" by auto
  then show ?thesis using p by (auto simp: resolve_def kind_at_def)
qed

lemma fs_symlink_exists:
  assumes "fs_open t p = Inr P"
  shows "\<exists>e. fs_symlink a l t p = Inl e \<and> (l \<noteq> [] \<longrightarrow> e = EEXIST)"
proof (cases "l = []")
  case True
  then show ?thesis by (simp add: fs_symlink_def)
next
  case False
  from fs_open_InrD[OF assms] have r: "resolve t True p = Inr P" and g: "get_node t P \<noteq> None"
    by auto
  have kP: "kind_at t P \<noteq> None" using g by (auto simp: kind_at_def)
  show ?thesis
  proof (cases "dir_only p \<and> length p < PATH_MAX")
    case True
    then have "namei (kind_at t) True 40 [] (split_path p @ [''.'']) = Inr P"
      using r by (auto simp: resolve_def lookup_comps_def split: if_splits)
    from namei_dot_last[OF this] have n: "namei (kind_at t) True 40 [] (split_path p) = Inr P"
      by simp
    from namei_follow_exists[OF n kP] obtain P' where
      "namei (kind_at t) False 40 [] (split_path p) = Inr P'" "kind_at t P' \<noteq> None" by auto
    then show ?thesis using True False by (auto simp: fs_symlink_def kind_at_def)
  next
    case nd: False
    from resolve_follow_exists[OF r g] obtain P' where
      "resolve t False p = Inr P'" "get_node t P' \<noteq> None" by auto
    then show ?thesis using nd False by (auto simp: fs_symlink_def)
  qed
qed

subsection \<open>What a failed system call has done\<close>

lemma query_InlD: "query c f s = (Inl e, s1) \<Longrightarrow> (\<exists>x. e = Errno x) \<and> root s1 = root s"
  by (auto simp: query_def log_simps split: option.splits sum.splits prod.splits)

lemma command_SomeD: "command c f s = (Some e, s1) \<Longrightarrow> (\<exists>x. e = Errno x) \<and> root s1 = root s"
  by (auto simp: command_def log_simps split: option.splits sum.splits prod.splits)

lemma os_Lstat_InlD: "os_Lstat p s = (Inl e, s1) \<Longrightarrow> (\<exists>x. e = Errno x) \<and> root s1 = root s"
  unfolding os_Lstat_def by (rule query_InlD)

lemma os_Readlink_InlD: "os_Readlink p s = (Inl e, s1) \<Longrightarrow> (\<exists>x. e = Errno x) \<and> root s1 = root s"
  unfolding os_Readlink_def by (rule query_InlD)

lemma os_Symlink_SomeD:
  "os_Symlink l p s = (Some e, s1) \<Longrightarrow> (\<exists>x. e = Errno x) \<and> root s1 = root s"
  unfolding os_Symlink_def by (rule command_SomeD)

lemma os_Chtimes_SomeD:
  "os_Chtimes p a m s = (Some e, s1) \<Longrightarrow> (\<exists>x. e = Errno x) \<and> root s1 = root s"
  unfolding os_Chtimes_def by (rule command_SomeD)

lemma os_Open_InlD: "os_Open p s = (Inl e, s1) \<Longrightarrow> (\<exists>x. e = Errno x) \<and> root s1 = root s"
  by (auto simp: os_Open_def log_simps split: option.splits sum.splits prod.splits)

lemma os_Create_InlD: "os_Create p s = (Inl e, s1) \<Longrightarrow> (\<exists>x. e = Errno x) \<and> root s1 = root s"
  by (auto simp: os_Create_def log_simps split: option.splits sum.splits prod.splits)

lemma io_Copy_InlD: "io_Copy dst src s = (Inl e, s1) \<Longrightarrow> \<exists>x. e = Errno x"
  by (auto simp: io_Copy_def split: option.splits sum.splits prod.splits node.splits)

lemma file_Chmod_SomeD: "file_Chmod fd m s = (Some e, s1) \<Longrightarrow> \<exists>x. e = Errno x"
  by (auto simp: file_Chmod_def dest: command_SomeD split: option.splits)

lemma cpSymlink_SomeD: "cpSymlink src dest s = (Some e, s') \<Longrightarrow> \<exists>x. e = Errno x"
  by (auto simp: cpSymlink_def split: prod.splits sum.splits
      dest: os_Readlink_InlD os_Symlink_SomeD)

lemma cpContents_SomeD: "cpContents out inp si dest args s = (Some e, s') \<Longrightarrow> \<exists>x. e = Errno x"
  by (auto simp: cpContents_def split: prod.splits sum.splits option.splits if_splits
      dest: io_Copy_InlD file_Chmod_SomeD os_Chtimes_SomeD)

lemma cpContents_fst_SomeD:
  "fst (cpContents out inp si dest args s) = Some e \<Longrightarrow> \<exists>x. e = Errno x"
  by (cases "cpContents out inp si dest args s") (auto dest: cpContents_SomeD)

lemma cpFileCase_SomeD: "cpFileCase source dest args s = (Some e, s') \<Longrightarrow> \<exists>x. e = Errno x"
  by (auto simp: cpFileCase_def run_defers_def split: prod.splits sum.splits if_splits
      dest: os_Lstat_InlD os_Open_InlD os_Create_InlD cpSymlink_SomeD cpContents_fst_SomeD)



text \<open>The link copy onto a path that exists.\<close>

lemma cpSymlink_exists:
  assumes ex: "fs_open (root s) dest = Inr D" and c: "cpSymlink source dest s = (r, s')"
  shows "(\<exists>x. r = Some (Errno x)) \<and> root s' = root s \<and>
         (\<forall>l s2. os_Readlink source s = (Inr l, s2) \<and> l \<noteq> [] \<and> fault_at s2 = None
            \<longrightarrow> r = Some (Errno EEXIST))"
proof -
  obtain r1 s1 where a: "os_Readlink source s = (r1, s1)" by fastforce
  show ?thesis
  proof (cases r1)
    case (Inl err)
    then show ?thesis using a c os_Readlink_InlD[of source s err s1] by (auto simp: cpSymlink_def)
  next
    case (Inr l)
    from os_Readlink_InrD[OF a[unfolded Inr]] have s1: "s1 = log (SysReadlink source) None s"
      by simp
    have r1: "root s1 = root s" by (simp add: s1 log_simps)
    from fs_symlink_exists[OF ex, of "link_attrs s1" l] obtain e where
      e: "fs_symlink (link_attrs s1) l (root s1) dest = Inl e" "l \<noteq> [] \<longrightarrow> e = EEXIST"
      by (auto simp: r1)
    have b: "os_Symlink l dest s1 = (r, s')" using a c Inr by (simp add: cpSymlink_def)
    show ?thesis
    proof (cases "fault_at s1")
      case None
      then have "r = Some (Errno e)" "root s' = root s" using b e(1) r1
        by (auto simp: os_Symlink_def command_def log_simps)
      then show ?thesis using a Inr e(2) by auto
    next
      case (Some f)
      then have "\<exists>x. r = Some (Errno x)" "root s' = root s" using b r1
        by (auto simp: os_Symlink_def command_def log_simps split: prod.splits)
      then show ?thesis using a Inr Some by auto
    qed
  qed
qed

text \<open>
  The content copy: what a successful one has made of the destination, and the
  system calls it took.
\<close>

lemma content_copy_NoneD:
  assumes ok: "CpWithArgs source dest args s = (None, s')"
    and oS: "fs_open (root s) source = Inr S" and nS: "get_node (root s) S = Some (File a C)"
    and ls: "fs_stat False (root s) source = Inr si"
    and br: "\<not> (PreserveLinks args \<and> \<not> IsRegular (Mode si))"
  shows "\<exists>D a'. resolve (root s) True dest = Inr D \<and> resolve (root s') True dest = Inr D \<and>
           get_node (root s') D = Some (File a' (if D = S then [] else C)) \<and>
           perm a' = Perm (Mode si)"
    and "calls s' = calls s @
           [SysStat source, SysLstat source, SysOpen source, SysCreate dest,
            SysCopy (Suc (next_fd s)) (next_fd s),
            SysFchmod (Suc (next_fd s)) (Perm (Mode si))] @
           (if PreserveTimestamps args then [SysChtimes dest (ModTime si) (ModTime si)] else []) @
           [SysFsync (Suc (next_fd s)), SysClose (Suc (next_fd s)), SysClose (next_fd s)]"
proof -
  let ?i = "info_of (basename source) (File a C)"
  let ?s0 = "log (SysStat source) None s"
  from fs_open_InrD[OF oS] have rS': "resolve (root s) True source = Inr S" by simp
  have st: "fs_stat True (root s) source = Inr ?i" using rS' nS by (simp add: fs_stat_def)
  have nd: "\<not> IsDir (Mode ?i)" by (simp add: IsDir_def info_of_def)
  from CpWithArgs_file_NoneD[OF ok st nd]
  have a0: "os_Stat source s = (Inr ?i, ?s0)"
    and fc: "cpFileCase source dest args ?s0 = (None, s')" by auto
  have ls0: "fs_stat False (root ?s0) source = Inr si" using ls by (simp add: log_simps)
  from cpFileCase_content_NoneD[OF fc ls0 br] obtain s1 inp s2 out s3 s7 c1 s8 c2 where
    a1: "os_Lstat source ?s0 = (Inr si, s1)" and a2: "os_Open source s1 = (Inr inp, s2)"
    and a3: "os_Create dest s2 = (Inr out, s3)"
    and ac: "cpContents out inp si dest args s3 = (None, s7)"
    and a8: "file_Close out s7 = (c1, s8)" and a9: "file_Close inp s8 = (c2, s')" by blast
  from cpContents_NoneD[OF ac] obtain n s4 s5 s6 serr where
    a4: "io_Copy out inp s3 = (Inr n, s4)" and a5: "file_Chmod out (Mode si) s4 = (None, s5)"
    and a6: "if PreserveTimestamps args
             then os_Chtimes dest (ModTime si) (ModTime si) s5 = (None, s6) else s6 = s5"
    and a7: "file_Sync out s6 = (serr, s7)" by auto
  have s1: "s1 = log (SysLstat source) None ?s0" using os_Lstat_InrD[OF a1] by simp
  have r1: "root s1 = root s" and h1: "handles s1 = handles s" and f1: "next_fd s1 = next_fd s"
    by (simp_all add: s1 log_simps)
  from os_Open_InrD[OF a2] obtain Pi where
    op: "fs_open (root s1) source = Inr Pi" and inp: "inp = next_fd s1"
    and s2: "s2 = (log (SysOpen source) None s1)\<lparr>handles := (inp, Pi) # handles s1,
                                                  next_fd := Suc inp\<rparr>" by auto
  have Pi: "Pi = S" using op oS by (simp add: r1)
  have r2: "root s2 = root s" and h2: "handles s2 = (inp, S) # handles s"
    and f2: "next_fd s2 = Suc inp" by (simp_all add: s2 log_simps r1 h1 Pi)
  from os_Create_InrD[OF a3] obtain D t3 where
    cr: "fs_create (new_attrs s2 438) (root s2) dest = Inr (D, t3)" and out: "out = next_fd s2"
    and s3: "s3 = (log (SysCreate dest) None s2)\<lparr>root := t3, handles := (out, D) # handles s2,
                                                  next_fd := Suc out\<rparr>" by auto
  from fs_create_InrD[OF cr] obtain b where
    rD: "resolve (root s) True dest = Inr D" and rD3: "resolve t3 True dest = Inr D"
    and l3: "look t3 = (look (root s))(D \<mapsto> EFile b [])" by (auto simp: r2)
  let ?d = "if D = S then [] else C"
  have r3: "root s3 = t3" and h3: "handles s3 = (out, D) # (inp, S) # handles s"
    by (simp_all add: s3 h2)
  have oi: "out \<noteq> inp" using out f2 by simp
  have gS3: "\<exists>a3. get_node t3 S = Some (File a3 ?d)"
    using l3 nS by (cases "D = S") (simp_all add: look_EFile[symmetric])
  have gD3: "get_node t3 D = Some (File b [])" using l3 by (simp add: look_EFile[symmetric])
  from io_Copy_InrD[OF a4] have
    s4: "s4 = (log (SysCopy out inp) None s3)\<lparr>root := map_at D (write_file (now s3) ?d) t3\<rparr>"
    using h3 oi r3 gS3 gD3 by auto
  have l4: "look (root s4) = (look t3)(D \<mapsto> EFile (b\<lparr>mtime := now s3\<rparr>) ?d)"
    using look_write_file[OF gD3, of "now s3" ?d] by (simp add: s4)
  have h4: "handles s4 = handles s3" by (simp add: s4 log_simps)
  have gD4: "get_node (root s4) D = Some (File (b\<lparr>mtime := now s3\<rparr>) ?d)"
    using l4 by (simp add: look_EFile[symmetric])
  let ?f = "\<lambda>x. x\<lparr>perm := Perm (Mode si)\<rparr>"
  from file_Chmod_NoneD[OF a5] have
    s5: "s5 = (log (SysFchmod out (Perm (Mode si))) None s4)
                \<lparr>root := map_at D (upd_attrs ?f) (root s4)\<rparr>"
    using h4 h3 by auto
  have l5: "look (root s5) = (look (root s4))(D \<mapsto> EFile (?f (b\<lparr>mtime := now s3\<rparr>)) ?d)"
    using look_upd_attrs[OF gD4, of ?f] by (simp add: s5)
  have gD5: "get_node (root s5) D = Some (File (?f (b\<lparr>mtime := now s3\<rparr>)) ?d)"
    using l5 by (simp add: look_EFile[symmetric])
  have "resolve (root s4) True dest = resolve t3 True dest"
    by (rule resolve_after_same_kind[OF l4]) (simp add: l3)
  moreover have "resolve (root s5) True dest = resolve (root s4) True dest"
    by (rule resolve_after_same_kind[OF l5]) (simp add: l4)
  ultimately have rD5: "resolve (root s5) True dest = Inr D" using rD3 by simp
  have 6: "\<exists>a6. resolve (root s6) True dest = Inr D \<and>
              get_node (root s6) D = Some (File a6 ?d) \<and> perm a6 = Perm (Mode si)"
  proof (cases "PreserveTimestamps args")
    case False
    then show ?thesis using a6 rD5 gD5 by simp
  next
    case True
    let ?g = "\<lambda>a. a\<lparr>atime := ModTime si, mtime := ModTime si\<rparr>"
    from True a6 have "os_Chtimes dest (ModTime si) (ModTime si) s5 = (None, s6)" by simp
    from command_NoneD[OF this[unfolded os_Chtimes_def]] obtain t where
      u: "fs_update ?g (root s5) dest = Inr t" and r6: "root s6 = t" by auto
    from fs_update_InrD[OF u] obtain P n0 where
      p: "resolve (root s5) True dest = Inr P" and n0: "get_node (root s5) P = Some n0"
      and l: "look t = (look (root s5))(P \<mapsto> entry_of (upd_attrs ?g n0))"
      and r: "resolve t True dest = Inr P" by auto
    have P: "P = D" using p rD5 by simp
    have "n0 = File (?f (b\<lparr>mtime := now s3\<rparr>)) ?d" using n0 gD5 P by simp
    then have "look t D = Some (EFile (?g (?f (b\<lparr>mtime := now s3\<rparr>))) ?d)" using l P by simp
    then have "get_node t D = Some (File (?g (?f (b\<lparr>mtime := now s3\<rparr>))) ?d)"
      by (simp add: look_EFile)
    then show ?thesis using r P r6 by simp
  qed
  have rs: "root s' = root s6"
    using file_Sync_same[OF a7] file_Close_same[OF a8] file_Close_same[OF a9] by simp
  from 6 rs rD show "\<exists>D a'. resolve (root s) True dest = Inr D \<and>
      resolve (root s') True dest = Inr D \<and>
      get_node (root s') D = Some (File a' (if D = S then [] else C)) \<and>
      perm a' = Perm (Mode si)" by auto
  have io: "inp = next_fd s" "out = Suc (next_fd s)" using inp f1 out f2 by simp_all
  have t5: "trace s5 = trace s @
     [(SysStat source, None), (SysLstat source, None), (SysOpen source, None),
      (SysCreate dest, None), (SysCopy out inp, None), (SysFchmod out (Perm (Mode si)), None)]"
    using traceD(1)[OF a0] traceD(2)[OF a1] traceD(11)[OF a2] traceD(12)[OF a3] traceD(16)[OF a4]
      traceD(14)[OF a5] by simp
  have t6: "trace s6 = trace s5 @
     (if PreserveTimestamps args
      then [(SysChtimes dest (ModTime si) (ModTime si), None)] else [])"
  proof (cases "PreserveTimestamps args")
    case True
    with a6 have "os_Chtimes dest (ModTime si) (ModTime si) s5 = (None, s6)" by simp
    from traceD(8)[OF this] True show ?thesis by simp
  next
    case False
    then show ?thesis using a6 by simp
  qed
  have "trace s' = trace s6 @ [(SysFsync out, serr), (SysClose out, c1), (SysClose inp, c2)]"
    using traceD(15)[OF a7] traceD(13)[OF a8] traceD(13)[OF a9] by simp
  then show "calls s' = calls s @
           [SysStat source, SysLstat source, SysOpen source, SysCreate dest,
            SysCopy (Suc (next_fd s)) (next_fd s),
            SysFchmod (Suc (next_fd s)) (Perm (Mode si))] @
           (if PreserveTimestamps args then [SysChtimes dest (ModTime si) (ModTime si)] else []) @
           [SysFsync (Suc (next_fd s)), SysClose (Suc (next_fd s)), SysClose (next_fd s)]"
    using t5 t6 by (simp add: calls_def io)
qed

lemma query_ok:
  "fault_at s = None \<Longrightarrow> f (root s) = Inr v \<Longrightarrow> query c f s = (Inr v, log c None s)"
  by (simp add: query_def)

section \<open>A small file system for examples\<close>

definition ex_attrs :: "nat \<Rightarrow> int \<Rightarrow> attrs" where
  "ex_attrs m t = \<lparr>perm = m, uid = 1000, gid = 1000, mtime = t, atime = t\<rparr>"

definition ex_root :: node where
  "ex_root =
     Dir (ex_attrs 493 10)
       [(''a'', File (ex_attrs 420 7) ''hello''),
        (''b'', File (ex_attrs 384 8) ''old''),
        (''d'', Dir (ex_attrs 493 9)
                  [(''x'', File (ex_attrs 420 5) ''xx''),
                   (''sub'', Dir (ex_attrs 448 6) [(''y'', File (ex_attrs 416 4) ''yy'')])]),
        (''l'', Symlink (ex_attrs 511 3) ''/d''),
        (''m'', Symlink (ex_attrs 511 2) ''a'')]"

definition ex_world :: world where
  "ex_world =
     \<lparr>root = ex_root, handles = [], next_fd = 3, trace = [], faults = (\<lambda>n. None),
      umask = 18, now = 1000, euid = 1000, egid = 1000\<rparr>"

lemmas ex_defs = ex_world_def ex_root_def ex_attrs_def

lemmas fs_defs =
  fs_stat_def fs_open_def fs_create_def fs_update_def fs_mkdir_all_def fs_readdir_def
  fs_readlink_def fs_symlink_def resolve_def lookup_comps_def dir_only_def split_path_def
  basename_def kind_at_def PATH_MAX_def info_of_def valid_name_def

lemmas os_defs =
  os_Stat_def os_Lstat_def os_Readlink_def ioutil_ReadDir_def readDirNames_def os_Chmod_def
  os_Chown_def os_Chtimes_def os_Symlink_def os_MkdirAll_def os_Open_def os_Create_def
  file_Close_def file_Chmod_def file_Sync_def io_Copy_def query_def command_def log_def
  fault_at_def new_attrs_def link_attrs_def chown_id_def calls_def

lemmas cp_defs =
  Cp_def CpR_def CpArgs_zero_def CpWithArgs.simps cpFileCase_def cpContents_def
  run_defers_def cpSymlink_def IsDir_def IsRegular_def

section \<open>The claims\<close>

text \<open>
  Claim C9. \<^verbatim>\<open>Cp(source, dest)\<close> is \<^verbatim>\<open>CpWithArgs\<close> with all three options unset, and
  \<^verbatim>\<open>CpR(source, dest)\<close> is \<^verbatim>\<open>CpWithArgs\<close> with only \<^verbatim>\<open>Recursive\<close> set: on every world
  they return the same error and leave the same world.
\<close>

theorem Cp_and_CpR_are_CpWithArgs:
  "Cp source dest s =
     CpWithArgs source dest
       \<lparr>Recursive = False, PreserveLinks = False, PreserveTimestamps = False\<rparr> s
   \<and> CpR source dest s =
     CpWithArgs source dest
       \<lparr>Recursive = True, PreserveLinks = False, PreserveTimestamps = False\<rparr> s"
  by (simp add: Cp_def CpR_def CpArgs_zero_def)

text \<open>
  Claim C5. When the source is a directory (and the \<^verbatim>\<open>Stat\<close> call on it is not failed
  from outside) and \<^verbatim>\<open>Recursive\<close> is unset, \<^verbatim>\<open>CpWithArgs\<close> returns the error
  \<^verbatim>\<open>source is a directory\<close>; the tree and the open descriptors are as before, and
  the one system call made is the (successful) \<^verbatim>\<open>Stat\<close>.
\<close>

theorem directory_without_Recursive_fails_unchanged:
  assumes "fault_at s = None" and "fs_stat True (root s) source = Inr i" and "IsDir (Mode i)"
    and "\<not> Recursive args"
  shows "fst (CpWithArgs source dest args s) = Some (ErrorString ''source is a directory'')
       \<and> root (snd (CpWithArgs source dest args s)) = root s
       \<and> handles (snd (CpWithArgs source dest args s)) = handles s
       \<and> trace (snd (CpWithArgs source dest args s)) = trace s @ [(SysStat source, None)]"
  using assms by (simp add: CpWithArgs_unfold os_Stat_ok log_simps)

theorem directory_without_Recursive_fails_unchanged_witness:
  "fault_at ex_world = None
   \<and> fs_stat True (root ex_world) ''/d'' =
       Inr \<lparr>Name = ''d'', Mode = \<lparr>ftype = TDir, Perm = 493\<rparr>, ModTime = 9\<rparr>
   \<and> fst (CpWithArgs ''/d'' ''/e'' CpArgs_zero ex_world) = Some (ErrorString ''source is a directory'')
   \<and> root (snd (CpWithArgs ''/d'' ''/e'' CpArgs_zero ex_world)) = root ex_world
   \<and> handles (snd (CpWithArgs ''/d'' ''/e'' CpArgs_zero ex_world)) = handles ex_world
   \<and> trace (snd (CpWithArgs ''/d'' ''/e'' CpArgs_zero ex_world))
       = trace ex_world @ [(SysStat ''/d'', None)]"
proof -
  have 1: "fault_at ex_world = None" by (simp add: fault_at_def ex_defs)
  have 2: "fs_stat True (root ex_world) ''/d'' =
       Inr \<lparr>Name = ''d'', Mode = \<lparr>ftype = TDir, Perm = 493\<rparr>, ModTime = 9\<rparr>"
    by (simp add: fs_defs ex_defs)
  have 3: "IsDir (Mode \<lparr>Name = ''d'', Mode = \<lparr>ftype = TDir, Perm = 493\<rparr>, ModTime = 9\<rparr>)"
    by (simp add: IsDir_def)
  have 4: "\<not> Recursive CpArgs_zero" by (simp add: CpArgs_zero_def)
  from directory_without_Recursive_fails_unchanged[OF 1 2 3 4, of "''/e''"] 1 2
  show ?thesis by simp
qed

text \<open>
  Claim C1 (as stated it fails). The check for an existing destination is made in
  the directory case only. With a regular file as source, an existing destination
  file is opened with \<^verbatim>\<open>os.Create\<close>, emptied and overwritten, and the copy succeeds:
  here \<^verbatim>\<open>/b\<close> exists with content \<^verbatim>\<open>old\<close> and ends with the content of \<^verbatim>\<open>/a\<close>.
\<close>

theorem existing_destination_file_is_overwritten:
  "fs_open (root ex_world) ''/b'' = Inr [''b'']
   \<and> get_node (root ex_world) [''b''] = Some (File (ex_attrs 384 8) ''old'')
   \<and> fst (Cp ''/a'' ''/b'' ex_world) = None
   \<and> get_node (root (snd (Cp ''/a'' ''/b'' ex_world))) [''b'']
       = Some (File \<lparr>perm = 420, uid = 1000, gid = 1000, mtime = 1000, atime = 8\<rparr> ''hello'')"
  by (simp add: cp_defs os_defs fs_defs ex_defs)

text \<open>
  Claim C1, amended. Let the destination exist (it names a file or a directory when
  links are followed) and let \<^verbatim>\<open>os.Stat\<close> of the source succeed. (1) When the source
  is a directory and \<^verbatim>\<open>Recursive\<close> is set, \<^verbatim>\<open>CpWithArgs\<close> returns
  \<^verbatim>\<open>destination already exists\<close> and the tree is as before. (2) When the source is a
  directory and \<^verbatim>\<open>Recursive\<close> is unset, it returns \<^verbatim>\<open>source is a directory\<close> and the
  tree is as before. (3) When the source is not a directory, the error
  \<^verbatim>\<open>destination already exists\<close> is never returned. (4) In the link case
  (\<^verbatim>\<open>PreserveLinks\<close> set, \<^verbatim>\<open>Lstat\<close> of the source not a regular file) the call fails
  with the error of a system call and the tree is as before; the error is \<^verbatim>\<open>EEXIST\<close>
  of \<^verbatim>\<open>os.Symlink\<close> when the link was read, its target is not empty and the
  \<^verbatim>\<open>Symlink\<close> call is not failed from outside. (5) In the content case a successful
  copy from a regular file with content \<open>C\<close> leaves a regular file with content \<open>C\<close>
  at the destination (an empty one when the destination is the source file itself):
  the file that was there has been overwritten.
\<close>

theorem copy_onto_existing_destination:
  assumes ex: "fs_open (root s) dest = Inr D" and st: "os_Stat source s = (Inr i, s1)"
  shows "(let r = CpWithArgs source dest args s in
          (IsDir (Mode i) \<and> Recursive args \<longrightarrow>
             fst r = Some (ErrorString ''destination already exists'') \<and> root (snd r) = root s)
        \<and> (IsDir (Mode i) \<and> \<not> Recursive args \<longrightarrow>
             fst r = Some (ErrorString ''source is a directory'') \<and> root (snd r) = root s)
        \<and> (\<not> IsDir (Mode i) \<longrightarrow> fst r \<noteq> Some (ErrorString ''destination already exists''))
        \<and> (\<not> IsDir (Mode i) \<and> os_Lstat source s1 = (Inr si, s2) \<and>
             PreserveLinks args \<and> \<not> IsRegular (Mode si) \<longrightarrow>
             (\<exists>x. fst r = Some (Errno x)) \<and> root (snd r) = root s \<and>
             (os_Readlink source s2 = (Inr l, s3) \<and> l \<noteq> [] \<and> fault_at s3 = None \<longrightarrow>
                fst r = Some (Errno EEXIST)))
        \<and> (\<not> IsDir (Mode i) \<and> os_Lstat source s1 = (Inr si, s2) \<and>
             \<not> (PreserveLinks args \<and> \<not> IsRegular (Mode si)) \<and>
             fs_open (root s) source = Inr S \<and> get_node (root s) S = Some (File a C) \<and>
             fst r = None \<longrightarrow>
             (\<exists>a'. get_node (root (snd r)) D = Some (File a' (if D = S then [] else C)))))"
proof -
  let ?r = "CpWithArgs source dest args s"
  from os_Stat_InrD[OF st] have s1: "s1 = log (SysStat source) None s" by simp
  have r1: "root s1 = root s" by (simp add: s1 log_simps)
  have 1: "fst ?r = Some (ErrorString ''destination already exists'') \<and> root (snd ?r) = root s"
    if "IsDir (Mode i)" "Recursive args"
  proof -
    have "fs_open (root s1) dest = Inr D" using ex r1 by simp
    then have "\<not> IsNotExist (err_of (fst (os_Open dest s1)))" by (rule os_Open_not_IsNotExist)
    moreover have "root (snd (os_Open dest s1)) = root s" by (simp add: os_Open_root r1)
    ultimately show ?thesis using that st
      by (auto simp: CpWithArgs.simps[of source dest args s] split: prod.splits)
  qed
  have 2: "fst ?r = Some (ErrorString ''source is a directory'') \<and> root (snd ?r) = root s"
    if "IsDir (Mode i)" "\<not> Recursive args"
    using that st r1 by (simp add: CpWithArgs.simps[of source dest args s])
  have fc: "?r = cpFileCase source dest args s1" if "\<not> IsDir (Mode i)"
    using that st by (simp add: CpWithArgs.simps[of source dest args s])
  have 3: "fst ?r \<noteq> Some (ErrorString ''destination already exists'')" if nd: "\<not> IsDir (Mode i)"
  proof
    assume "fst ?r = Some (ErrorString ''destination already exists'')"
    then have "cpFileCase source dest args s1
        = (Some (ErrorString ''destination already exists''), snd ?r)"
      using fc[OF nd] by (simp add: prod_eq_iff)
    from cpFileCase_SomeD[OF this] show False by simp
  qed
  have 4: "(\<exists>x. fst ?r = Some (Errno x)) \<and> root (snd ?r) = root s \<and>
           (os_Readlink source s2 = (Inr l, s3) \<and> l \<noteq> [] \<and> fault_at s3 = None \<longrightarrow>
              fst ?r = Some (Errno EEXIST))"
    if nd: "\<not> IsDir (Mode i)" and ls: "os_Lstat source s1 = (Inr si, s2)"
      and pl: "PreserveLinks args" and nr: "\<not> IsRegular (Mode si)"
  proof -
    from os_Lstat_InrD[OF ls] have r2: "root s2 = root s" by (simp add: r1 log_simps)
    have e: "?r = cpSymlink source dest s2" using fc[OF nd] cpFileCase_symlink[OF ls pl nr] by simp
    have ex2: "fs_open (root s2) dest = Inr D" using ex r2 by simp
    have c: "cpSymlink source dest s2 = (fst ?r, snd ?r)" using e by simp
    from cpSymlink_exists[OF ex2 c] show ?thesis using r2 by auto
  qed
  have 5: "\<exists>a'. get_node (root (snd ?r)) D = Some (File a' (if D = S then [] else C))"
    if nd: "\<not> IsDir (Mode i)" and ls: "os_Lstat source s1 = (Inr si, s2)"
      and br: "\<not> (PreserveLinks args \<and> \<not> IsRegular (Mode si))"
      and oS: "fs_open (root s) source = Inr S" and nS: "get_node (root s) S = Some (File a C)"
      and ok: "fst ?r = None"
  proof -
    have ok': "CpWithArgs source dest args s = (None, snd ?r)" using ok by (simp add: prod_eq_iff)
    from os_Lstat_InrD[OF ls] have ls': "fs_stat False (root s) source = Inr si" by (simp add: r1)
    from content_copy_NoneD(1)[OF ok' oS nS ls' br] obtain D' a' where
      "resolve (root s) True dest = Inr D'"
      "get_node (root (snd ?r)) D' = Some (File a' (if D' = S then [] else C))" by auto
    moreover have "resolve (root s) True dest = Inr D" using fs_open_InrD[OF ex] by simp
    ultimately show ?thesis by auto
  qed
  from 1 2 3 4 5 show ?thesis unfolding Let_def by blast
qed

theorem copy_onto_existing_destination_witness:
  "fs_open (root ex_world) ''/b'' = Inr [''b'']
   \<and> fst (os_Stat ''/d'' ex_world)
       = Inr \<lparr>Name = ''d'', Mode = \<lparr>ftype = TDir, Perm = 493\<rparr>, ModTime = 9\<rparr>
   \<and> fst (CpWithArgs ''/d'' ''/b'' (CpArgs_zero\<lparr>Recursive := True\<rparr>) ex_world)
       = Some (ErrorString ''destination already exists'')
   \<and> root (snd (CpWithArgs ''/d'' ''/b'' (CpArgs_zero\<lparr>Recursive := True\<rparr>) ex_world))
       = root ex_world
   \<and> fst (os_Stat ''/m'' ex_world)
       = Inr \<lparr>Name = ''m'', Mode = \<lparr>ftype = TRegular, Perm = 420\<rparr>, ModTime = 7\<rparr>
   \<and> fst (CpWithArgs ''/m'' ''/b'' (CpArgs_zero\<lparr>PreserveLinks := True\<rparr>) ex_world)
       = Some (Errno EEXIST)
   \<and> root (snd (CpWithArgs ''/m'' ''/b'' (CpArgs_zero\<lparr>PreserveLinks := True\<rparr>) ex_world))
       = root ex_world"
proof -
  let ?d = "\<lparr>Name = ''d'', Mode = \<lparr>ftype = TDir, Perm = 493\<rparr>, ModTime = 9\<rparr>"
  let ?i = "\<lparr>Name = ''m'', Mode = \<lparr>ftype = TRegular, Perm = 420\<rparr>, ModTime = 7\<rparr>"
  let ?si = "\<lparr>Name = ''m'', Mode = \<lparr>ftype = TSymlink, Perm = 511\<rparr>, ModTime = 2\<rparr>"
  let ?s1 = "log (SysStat ''/m'') None ex_world"
  let ?s2 = "log (SysLstat ''/m'') None ?s1"
  let ?s3 = "log (SysReadlink ''/m'') None ?s2"
  have f: "fault_at ex_world = None" "fault_at ?s1 = None" "fault_at ?s2 = None"
    "fault_at ?s3 = None"
    by (simp_all add: fault_at_def log_def ex_world_def)
  have 1: "fs_open (root ex_world) ''/b'' = Inr [''b'']" by (simp add: fs_defs ex_defs)
  have "fs_stat True (root ex_world) ''/d'' = Inr ?d" by (simp add: fs_defs ex_defs)
  then have 2: "os_Stat ''/d'' ex_world = (Inr ?d, log (SysStat ''/d'') None ex_world)"
    using f(1) by (simp add: os_Stat_ok)
  have "fs_stat True (root ex_world) ''/m'' = Inr ?i" by (simp add: fs_defs ex_defs)
  then have 3: "os_Stat ''/m'' ex_world = (Inr ?i, ?s1)" using f(1) by (simp add: os_Stat_ok)
  have "fs_stat False (root ?s1) ''/m'' = Inr ?si" by (simp add: log_simps) (simp add: fs_defs ex_defs)
  then have 4: "os_Lstat ''/m'' ?s1 = (Inr ?si, ?s2)"
    unfolding os_Lstat_def using f(2) by (rule query_ok[rotated])
  have "fs_readlink (root ?s2) ''/m'' = Inr ''a''"
    by (simp add: log_simps) (simp add: fs_defs ex_defs)
  then have 5: "os_Readlink ''/m'' ?s2 = (Inr ''a'', ?s3)"
    unfolding os_Readlink_def using f(3) by (rule query_ok[rotated])
  have 6: "IsDir (Mode ?d)" "\<not> IsDir (Mode ?i)" "\<not> IsRegular (Mode ?si)"
    by (simp_all add: IsDir_def IsRegular_def)
  note a = copy_onto_existing_destination[OF 1 2, where args = "CpArgs_zero\<lparr>Recursive := True\<rparr>",
      unfolded Let_def, THEN conjunct1]
  note b = copy_onto_existing_destination[OF 1 3,
      where args = "CpArgs_zero\<lparr>PreserveLinks := True\<rparr>" and si = ?si and ?s2.0 = ?s2
        and l = "''a''" and ?s3.0 = ?s3,
      unfolded Let_def, THEN conjunct2, THEN conjunct2, THEN conjunct2, THEN conjunct1]
  from a 6(1) have A: "fst (CpWithArgs ''/d'' ''/b'' (CpArgs_zero\<lparr>Recursive := True\<rparr>) ex_world)
       = Some (ErrorString ''destination already exists'')
     \<and> root (snd (CpWithArgs ''/d'' ''/b'' (CpArgs_zero\<lparr>Recursive := True\<rparr>) ex_world))
       = root ex_world" by simp
  from b 4 5 6(2,3) f(4) have B:
    "fst (CpWithArgs ''/m'' ''/b'' (CpArgs_zero\<lparr>PreserveLinks := True\<rparr>) ex_world)
       = Some (Errno EEXIST)
     \<and> root (snd (CpWithArgs ''/m'' ''/b'' (CpArgs_zero\<lparr>PreserveLinks := True\<rparr>) ex_world))
       = root ex_world" by simp
  from A B 1 2 3 show ?thesis by simp
qed

text \<open>
  Claim C6 (as stated it fails). An error of \<^verbatim>\<open>os.Open(dest)\<close> other than "not found"
  is not returned to the caller: the test is \<^verbatim>\<open>!os.IsNotExist(err)\<close>, so such an error
  is reported as \<^verbatim>\<open>destination already exists\<close>. Here \<^verbatim>\<open>/a\<close> is a regular file, so
  \<^verbatim>\<open>/a/x\<close> does not exist and opening it gives \<^verbatim>\<open>ENOTDIR\<close>.
\<close>

theorem other_open_error_is_reported_as_existing_destination:
  "fs_open (root ex_world) ''/a/x'' = Inl ENOTDIR
   \<and> fst (os_Open ''/a/x'' ex_world) = Inl (Errno ENOTDIR)
   \<and> fst (CpR ''/d'' ''/a/x'' ex_world) = Some (ErrorString ''destination already exists'')"
  by (simp add: cp_defs os_defs fs_defs ex_defs)

text \<open>
  Claim C6, amended. In the directory case (source a directory, \<^verbatim>\<open>Recursive\<close> set)
  the result of \<^verbatim>\<open>os.Open(dest)\<close> decides: whenever it is not a "not found" error,
  that is when the open succeeds or fails in any other way, \<^verbatim>\<open>CpWithArgs\<close> returns
  \<^verbatim>\<open>destination already exists\<close> right after the open; when it is "not found" the
  next system call is the \<^verbatim>\<open>MkdirAll\<close> of the destination. The open reports "not
  found" exactly when it is not failed from outside and the path is missing.
\<close>

theorem destination_check_of_directory_case:
  assumes "fault_at s = None" and "fs_stat True (root s) source = Inr i" and "IsDir (Mode i)"
    and "Recursive args" and "os_Open dest (log (SysStat source) None s) = (r, s2)"
  shows "(if IsNotExist (err_of r)
          then prefix (calls s @ [SysStat source, SysOpen dest, SysMkdirAll dest (Perm (Mode i))])
                 (calls (snd (CpWithArgs source dest args s)))
          else CpWithArgs source dest args s
                 = (Some (ErrorString ''destination already exists''), s2))
       \<and> (IsNotExist (err_of r) \<longleftrightarrow>
            fault_at (log (SysStat source) None s) = None \<and> fs_open (root s) dest = Inl ENOENT)"
proof -
  let ?s1 = "log (SysStat source) None s"
  have st: "os_Stat source s = (Inr i, ?s1)" using assms by (simp add: os_Stat_ok)
  have iff: "IsNotExist (err_of r) \<longleftrightarrow> fault_at ?s1 = None \<and> fs_open (root s) dest = Inl ENOENT"
  proof (cases "fault_at ?s1")
    case None
    show ?thesis
    proof (cases "fs_open (root s) dest")
      case (Inl e)
      then show ?thesis using assms(5) None
        by (cases e) (auto simp: os_Open_def log_simps)
    next
      case (Inr P)
      then show ?thesis using assms(5) None by (auto simp: os_Open_def log_simps)
    qed
  next
    case (Some a)
    then show ?thesis using assms(5) by (cases a) (auto simp: os_Open_def)
  qed
  have t2: "calls s2 = calls s @ [SysStat source, SysOpen dest]"
    using traceD(11)[OF assms(5)] by (simp add: log_simps calls_def)
  have "if IsNotExist (err_of r)
        then prefix (calls s @ [SysStat source, SysOpen dest, SysMkdirAll dest (Perm (Mode i))])
               (calls (snd (CpWithArgs source dest args s)))
        else CpWithArgs source dest args s
               = (Some (ErrorString ''destination already exists''), s2)"
  proof (cases "IsNotExist (err_of r)")
    case False
    then show ?thesis using st assms(3,4,5) by (simp add: CpWithArgs.simps)
  next
    case True
    obtain r3 s3 where mk: "os_MkdirAll dest (Mode i) s2 = (r3, s3)" by fastforce
    have t3: "calls s3 = calls s @ [SysStat source, SysOpen dest, SysMkdirAll dest (Perm (Mode i))]"
      using traceD(10)[OF mk] t2 by (simp add: calls_def)
    obtain r4 s4 where rd: "ioutil_ReadDir source s3 = (r4, s4)" by fastforce
    have t4: "prefix (trace s3) (trace s4)" using traceD(4)[OF rd] by simp
    have "prefix (trace s3) (trace (snd (CpWithArgs source dest args s)))"
    proof (cases r3)
      case (Some e)
      then show ?thesis using st assms True mk by (simp add: CpWithArgs.simps)
    next
      case None
      show ?thesis
      proof (cases r4)
        case (Inl e)
        then show ?thesis using st assms True mk None rd t4 by (simp add: CpWithArgs.simps)
      next
        case (Inr files)
        have "prefix (trace s4) (trace (snd (cpFiles source dest args files s4)))"
          by (rule cpFiles_trace_prefix)
        with t4 have "prefix (trace s3) (trace (snd (cpFiles source dest args files s4)))"
          by (rule prefix_order.trans)
        then show ?thesis using st assms True mk None rd Inr by (simp add: CpWithArgs.simps)
      qed
    qed
    then have "prefix (calls s3) (calls (snd (CpWithArgs source dest args s)))"
      by (rule calls_prefix)
    then show ?thesis using True t3 by simp
  qed
  then show ?thesis using iff by simp
qed

theorem destination_check_of_directory_case_witness:
  "fault_at ex_world = None
   \<and> fs_stat True (root ex_world) ''/d'' =
       Inr \<lparr>Name = ''d'', Mode = \<lparr>ftype = TDir, Perm = 493\<rparr>, ModTime = 9\<rparr>
   \<and> fs_open (root ex_world) ''/e'' = Inl ENOENT
   \<and> prefix [SysStat ''/d'', SysOpen ''/e'', SysMkdirAll ''/e'' 493]
        (calls (snd (CpWithArgs ''/d'' ''/e'' (CpArgs_zero\<lparr>Recursive := True\<rparr>) ex_world)))"
proof -
  have 1: "fault_at ex_world = None" by (simp add: fault_at_def ex_defs)
  have 2: "fs_stat True (root ex_world) ''/d'' =
       Inr \<lparr>Name = ''d'', Mode = \<lparr>ftype = TDir, Perm = 493\<rparr>, ModTime = 9\<rparr>"
    by (simp add: fs_defs ex_defs)
  have 3: "IsDir (Mode \<lparr>Name = ''d'', Mode = \<lparr>ftype = TDir, Perm = 493\<rparr>, ModTime = 9\<rparr>)"
    by (simp add: IsDir_def)
  have 4: "Recursive (CpArgs_zero\<lparr>Recursive := True\<rparr>)" by simp
  have 5: "fs_open (root ex_world) ''/e'' = Inl ENOENT" by (simp add: fs_defs ex_defs)
  have 6: "os_Open ''/e'' (log (SysStat ''/d'') None ex_world)
      = (Inl (Errno ENOENT),
         log (SysOpen ''/e'') (Some (Errno ENOENT)) (log (SysStat ''/d'') None ex_world))"
    using 5 by (simp add: os_Open_def fault_at_def log_def ex_world_def)
  have 7: "calls ex_world = []" by (simp add: ex_world_def calls_def)
  from destination_check_of_directory_case[OF 1 2 3 4 6] 1 2 5 7
  show ?thesis by simp
qed

text \<open>
  Claim C7 (the code does not do this). \<^verbatim>\<open>CpR("/d", "/b")\<close> with \<^verbatim>\<open>/d\<close> a directory and
  \<^verbatim>\<open>/b\<close> an existing file: the existence check opens \<^verbatim>\<open>/b\<close>, throws the descriptor
  away and returns \<^verbatim>\<open>destination already exists\<close>. No descriptor was open before the
  call; descriptor 3, on \<^verbatim>\<open>/b\<close>, is open after it, and no \<^verbatim>\<open>Close\<close> was called: the
  two calls made are the \<^verbatim>\<open>Stat\<close> and the \<^verbatim>\<open>Open\<close>, both successful.
\<close>

theorem existence_check_leaves_descriptor_open:
  "handles ex_world = []
   \<and> fst (CpR ''/d'' ''/b'' ex_world) = Some (ErrorString ''destination already exists'')
   \<and> handles (snd (CpR ''/d'' ''/b'' ex_world)) = [(3, [''b''])]
   \<and> trace (snd (CpR ''/d'' ''/b'' ex_world)) = [(SysStat ''/d'', None), (SysOpen ''/b'', None)]"
  by (simp add: cp_defs os_defs fs_defs ex_defs)




text \<open>
  Claim C4 (as stated it fails). The branch is taken on the result of \<^verbatim>\<open>os.Stat\<close>, which
  follows links, before \<^verbatim>\<open>Lstat\<close> is looked at. \<^verbatim>\<open>/l\<close> is a symbolic link to the
  directory \<^verbatim>\<open>/d\<close>, so \<^verbatim>\<open>Lstat\<close> reports a link (not a regular file). With
  \<^verbatim>\<open>PreserveLinks\<close> set and \<^verbatim>\<open>Recursive\<close> unset the copy fails with
  \<^verbatim>\<open>source is a directory\<close> and nothing is created; with \<^verbatim>\<open>Recursive\<close> set the
  destination becomes a directory, not a link.
\<close>

theorem link_to_directory_is_not_copied_as_link:
  "fs_stat False (root ex_world) ''/l''
     = Inr \<lparr>Name = ''l'', Mode = \<lparr>ftype = TSymlink, Perm = 511\<rparr>, ModTime = 3\<rparr>
   \<and> fst (CpWithArgs ''/l'' ''/n''
          \<lparr>Recursive = False, PreserveLinks = True, PreserveTimestamps = False\<rparr> ex_world)
       = Some (ErrorString ''source is a directory'')
   \<and> root (snd (CpWithArgs ''/l'' ''/n''
          \<lparr>Recursive = False, PreserveLinks = True, PreserveTimestamps = False\<rparr> ex_world))
       = root ex_world
   \<and> fst (CpWithArgs ''/l'' ''/n''
          \<lparr>Recursive = True, PreserveLinks = True, PreserveTimestamps = False\<rparr> ex_world)
       = None
   \<and> kind_at (root (snd (CpWithArgs ''/l'' ''/n''
          \<lparr>Recursive = True, PreserveLinks = True, PreserveTimestamps = False\<rparr> ex_world)))
        [''n''] = Some KDir"
  by (simp add: cp_defs os_defs fs_defs ex_defs)

text \<open>
  Claim C4, amended. When \<^verbatim>\<open>os.Stat\<close> (which follows links) reports that the source is
  not a directory, \<^verbatim>\<open>Lstat\<close> reports that it is not a regular file, and
  \<^verbatim>\<open>PreserveLinks\<close> is set, \<^verbatim>\<open>CpWithArgs\<close> is \<^verbatim>\<open>cpSymlink\<close> after the two stat calls, and
  a successful call has read the target \<open>l\<close> of the source link and made one new node,
  a symbolic link with target \<open>l\<close> at the (so far missing) destination. The calls made
  are \<^verbatim>\<open>Stat\<close>, \<^verbatim>\<open>Lstat\<close>, \<^verbatim>\<open>Readlink\<close> and \<^verbatim>\<open>Symlink\<close>: no file is opened, created or
  written, and nothing else in the tree has changed.
\<close>

theorem preserved_link_is_copied_as_link:
  assumes ok: "CpWithArgs source dest args s = (None, s')"
    and st: "fs_stat True (root s) source = Inr i" and nd: "\<not> IsDir (Mode i)"
    and ls: "fs_stat False (root s) source = Inr si" and nr: "\<not> IsRegular (Mode si)"
    and pl: "PreserveLinks args"
  shows "CpWithArgs source dest args s
           = cpSymlink source dest (log (SysLstat source) None (log (SysStat source) None s))
       \<and> (\<exists>l P. fs_readlink (root s) source = Inr l
             \<and> calls s' = calls s @
                 [SysStat source, SysLstat source, SysReadlink source, SysSymlink l dest]
             \<and> resolve (root s) False dest = Inr P \<and> look (root s) P = None
             \<and> look (root s') = (look (root s))(P \<mapsto> ELink (link_attrs s) l)
             \<and> fs_readlink (root s') dest = Inr l
             \<and> handles s' = handles s)"
proof -
  let ?s0 = "log (SysStat source) None s"
  let ?s1 = "log (SysLstat source) None ?s0"
  from CpWithArgs_file_NoneD[OF ok st nd]
  have a0: "os_Stat source s = (Inr i, ?s0)" and fc: "cpFileCase source dest args ?s0 = (None, s')"
    by auto
  obtain r1 s1 where a1: "os_Lstat source ?s0 = (r1, s1)" by fastforce
  from fc a1 obtain si' where r1: "r1 = Inr si'" by (cases r1) (auto simp: cpFileCase_def)
  from os_Lstat_InrD[OF a1[unfolded r1]] ls have si': "si' = si" and s1: "s1 = ?s1"
    by (simp_all add: log_simps)
  have a1': "os_Lstat source ?s0 = (Inr si, ?s1)" using a1 r1 si' s1 by simp
  have eq: "cpFileCase source dest args ?s0 = cpSymlink source dest ?s1"
    by (rule cpFileCase_symlink[OF a1' pl nr])
  have first: "CpWithArgs source dest args s = cpSymlink source dest ?s1"
    using a0 nd eq by (simp add: CpWithArgs_unfold)
  have cs: "cpSymlink source dest ?s1 = (None, s')" using fc eq by simp
  obtain r2 s2 where a2: "os_Readlink source ?s1 = (r2, s2)" by fastforce
  from cs a2 obtain l where r2: "r2 = Inr l" by (cases r2) (auto simp: cpSymlink_def)
  from os_Readlink_InrD[OF a2[unfolded r2]] have rl: "fs_readlink (root s) source = Inr l"
    and s2: "s2 = log (SysReadlink source) None ?s1" by (simp_all add: log_simps)
  have a3: "os_Symlink l dest s2 = (None, s')" using cs a2 r2 by (simp add: cpSymlink_def)
  from command_NoneD[OF a3[unfolded os_Symlink_def]] obtain t where
    sy: "fs_symlink (link_attrs s2) l (root s2) dest = Inr t"
    and s': "s' = (log (SysSymlink l dest) None s2)\<lparr>root := t\<rparr>" by auto
  have na: "link_attrs s2 = link_attrs s" by (simp add: s2 link_attrs_def log_simps)
  have rt: "root s2 = root s" by (simp add: s2 log_simps)
  from fs_symlink_InrD[OF sy] obtain P where
    rP: "resolve (root s) False dest = Inr P" and m: "look (root s) P = None"
    and lk: "look t = (look (root s))(P \<mapsto> ELink (link_attrs s) l)"
    and rP': "resolve t False dest = Inr P" by (auto simp: na rt)
  have "look t P = Some (ELink (link_attrs s) l)" using lk by simp
  then have "get_node t P = Some (Symlink (link_attrs s) l)" by (simp add: look_ELink)
  then have rl': "fs_readlink t dest = Inr l" using rP' by (simp add: fs_readlink_def)
  have c: "calls s' = calls s @
      [SysStat source, SysLstat source, SysReadlink source, SysSymlink l dest]"
    by (simp add: s' s2 calls_def log_simps)
  have h: "handles s' = handles s" by (simp add: s' s2 log_simps)
  have "root s' = t" by (simp add: s')
  with first rl c rP m lk rl' h show ?thesis by auto
qed

theorem preserved_link_is_copied_as_link_witness:
  "CpWithArgs ''/m'' ''/n'' \<lparr>Recursive = False, PreserveLinks = True, PreserveTimestamps = False\<rparr>
       ex_world
     = (None, snd (CpWithArgs ''/m'' ''/n''
          \<lparr>Recursive = False, PreserveLinks = True, PreserveTimestamps = False\<rparr> ex_world))
   \<and> fs_stat True (root ex_world) ''/m''
       = Inr \<lparr>Name = ''m'', Mode = \<lparr>ftype = TRegular, Perm = 420\<rparr>, ModTime = 7\<rparr>
   \<and> fs_stat False (root ex_world) ''/m''
       = Inr \<lparr>Name = ''m'', Mode = \<lparr>ftype = TSymlink, Perm = 511\<rparr>, ModTime = 2\<rparr>
   \<and> (\<exists>l P. fs_readlink (root ex_world) ''/m'' = Inr l
         \<and> calls (snd (CpWithArgs ''/m'' ''/n''
              \<lparr>Recursive = False, PreserveLinks = True, PreserveTimestamps = False\<rparr> ex_world))
            = [SysStat ''/m'', SysLstat ''/m'', SysReadlink ''/m'', SysSymlink l ''/n'']
         \<and> resolve (root ex_world) False ''/n'' = Inr P \<and> look (root ex_world) P = None
         \<and> look (root (snd (CpWithArgs ''/m'' ''/n''
              \<lparr>Recursive = False, PreserveLinks = True, PreserveTimestamps = False\<rparr> ex_world)))
            = (look (root ex_world))(P \<mapsto> ELink (link_attrs ex_world) l)
         \<and> fs_readlink (root (snd (CpWithArgs ''/m'' ''/n''
              \<lparr>Recursive = False, PreserveLinks = True, PreserveTimestamps = False\<rparr> ex_world)))
              ''/n'' = Inr l
         \<and> handles (snd (CpWithArgs ''/m'' ''/n''
              \<lparr>Recursive = False, PreserveLinks = True, PreserveTimestamps = False\<rparr> ex_world))
            = handles ex_world)"
proof -
  let ?args = "\<lparr>Recursive = False, PreserveLinks = True, PreserveTimestamps = False\<rparr>"
  let ?i = "\<lparr>Name = ''m'', Mode = \<lparr>ftype = TRegular, Perm = 420\<rparr>, ModTime = 7\<rparr>"
  let ?si = "\<lparr>Name = ''m'', Mode = \<lparr>ftype = TSymlink, Perm = 511\<rparr>, ModTime = 2\<rparr>"
  have "fst (CpWithArgs ''/m'' ''/n'' ?args ex_world) = None"
    by (simp add: cp_defs os_defs fs_defs ex_defs)
  then have 1: "CpWithArgs ''/m'' ''/n'' ?args ex_world
      = (None, snd (CpWithArgs ''/m'' ''/n'' ?args ex_world))"
    by (simp add: prod_eq_iff)
  have 2: "fs_stat True (root ex_world) ''/m'' = Inr ?i" by (simp add: fs_defs ex_defs)
  have 3: "\<not> IsDir (Mode ?i)" by (simp add: IsDir_def)
  have 4: "fs_stat False (root ex_world) ''/m'' = Inr ?si" by (simp add: fs_defs ex_defs)
  have 5: "\<not> IsRegular (Mode ?si)" by (simp add: IsRegular_def)
  have 6: "PreserveLinks ?args" by simp
  have 7: "calls ex_world = []" by (simp add: calls_def ex_world_def)
  from preserved_link_is_copied_as_link[OF 1 2 3 4 5 6, THEN conjunct2] 1 2 4 7
  show ?thesis by simp
qed




end
